theory Spec2Isabelle
  imports Main "HOL-Library.Word" "HOL-Library.Char_ord" "HOL-Library.List_Lexorder"
begin

section \<open>The in-memory saga log (package saga)\<close>

text \<open>
  The Go source keeps a map from saga id to the slice of messages logged for that saga,
  guarded by a \<^verbatim>\<open>sync.RWMutex\<close>. The model passes the log explicitly: a record of the
  map and of the state of the mutex. A call that reaches \<^verbatim>\<open>Lock\<close> or \<^verbatim>\<open>RLock\<close> on a
  mutex that nobody will release never returns; that outcome is the value \<open>None\<close>.
\<close>

type_synonym byte = "8 word"

datatype SagaMessageType =
  StartSagaMsg | EndSagaMsg | AbortSagaMsg | StartTaskMsg | EndTaskMsg
  | StartCompTaskMsg | EndCompTaskMsg

record sagaMessage =
  sagaId :: string
  msgType :: SagaMessageType
  taskId :: string
  data :: "byte list"

text \<open>
  Modelled from the spec: \<^verbatim>\<open>StartSagaMessageFactory\<close> is called by the log but defined in a
  file that is not part of the sources. The spec gives the payload of a StartSaga
  message: the job id and the serialized job definition; it names no task.
\<close>

definition StartSagaMessageFactory :: "string \<Rightarrow> byte list \<Rightarrow> sagaMessage" where
  "StartSagaMessageFactory sid job =
     \<lparr>sagaId = sid, msgType = StartSagaMsg, taskId = [], data = job\<rparr>"

text \<open>
  \<^verbatim>\<open>sync.RWMutex\<close>: free, held by one writer, or held by a number of readers.
  \<^verbatim>\<open>Lock\<close> succeeds on a free mutex only, \<^verbatim>\<open>RLock\<close> on a mutex no writer holds.
\<close>

datatype RWMutex = Unlocked | WriteLocked | ReadLocked nat

fun Lock :: "RWMutex \<Rightarrow> RWMutex option" where
  "Lock Unlocked = Some WriteLocked"
| "Lock WriteLocked = None"
| "Lock (ReadLocked n) = None"

fun Unlock :: "RWMutex \<Rightarrow> RWMutex" where
  "Unlock WriteLocked = Unlocked"
| "Unlock m = m"

fun RLock :: "RWMutex \<Rightarrow> RWMutex option" where
  "RLock Unlocked = Some (ReadLocked 1)"
| "RLock (ReadLocked n) = Some (ReadLocked (Suc n))"
| "RLock WriteLocked = None"

fun RUnlock :: "RWMutex \<Rightarrow> RWMutex" where
  "RUnlock (ReadLocked n) = (if n \<le> 1 then Unlocked else ReadLocked (n - 1))"
| "RUnlock m = m"

record inMemorySagaLog =
  sagas :: "string \<rightharpoonup> sagaMessage list"
  mutex :: RWMutex

text \<open>The log that \<^verbatim>\<open>InMemorySagaFactory\<close> builds: an empty map and a free mutex.\<close>

definition InMemorySagaFactory :: inMemorySagaLog where
  "InMemorySagaFactory = \<lparr>sagas = Map.empty, mutex = Unlocked\<rparr>"

text \<open>A Go \<^verbatim>\<open>error\<close> is \<open>None\<close> for nil and \<open>Some\<close> of its message otherwise.\<close>

type_synonym error = "string option"

text \<open>
  \<^verbatim>\<open>LogMessage\<close>: take the write lock, look the saga up; when it is missing return the error
  at once (the source has no \<^verbatim>\<open>Unlock\<close> on this path); otherwise store the slice with the
  message appended, release the lock and return the nil error.
\<close>

definition LogMessage ::
  "inMemorySagaLog \<Rightarrow> sagaMessage \<Rightarrow> (error \<times> inMemorySagaLog) option" where
  "LogMessage log msg =
     (case Lock (mutex log) of
        None \<Rightarrow> None
      | Some m \<Rightarrow>
          (case sagas log (sagaId msg) of
             None \<Rightarrow>
               Some (Some (''Saga: '' @ sagaId msg @ '' is not Started yet.''),
                     log\<lparr>mutex := m\<rparr>)
           | Some msgs \<Rightarrow>
               Some (None,
                     log\<lparr>sagas := (sagas log)(sagaId msg \<mapsto> msgs @ [msg]),
                         mutex := Unlock m\<rparr>)))"

text \<open>
  \<^verbatim>\<open>StartSaga\<close>: take the write lock, store the one-message slice under the saga id
  whatever was stored there, release the lock, return nil.
\<close>

definition StartSaga ::
  "inMemorySagaLog \<Rightarrow> string \<Rightarrow> byte list \<Rightarrow> (error \<times> inMemorySagaLog) option" where
  "StartSaga log sid job =
     (case Lock (mutex log) of
        None \<Rightarrow> None
      | Some m \<Rightarrow>
          Some (None,
                log\<lparr>sagas := (sagas log)(sid \<mapsto> [StartSagaMessageFactory sid job]),
                    mutex := Unlock m\<rparr>))"

text \<open>
  \<^verbatim>\<open>GetMessages\<close>: read the map under the read lock; return the slice and nil when the
  saga is stored, and the nil slice (the empty list) and nil when it is not.
\<close>

definition GetMessages ::
  "inMemorySagaLog \<Rightarrow> string \<Rightarrow> ((sagaMessage list \<times> error) \<times> inMemorySagaLog) option" where
  "GetMessages log sid =
     (case RLock (mutex log) of
        None \<Rightarrow> None
      | Some m \<Rightarrow>
          (let log' = log\<lparr>mutex := RUnlock m\<rparr> in
           case sagas log sid of
             Some msgs \<Rightarrow> Some ((msgs, None), log')
           | None \<Rightarrow> Some (([], None), log')))"

text \<open>
  A caller logging a list of messages one after the other, stopping at the first call
  that fails or does not return.
\<close>

fun LogAll :: "inMemorySagaLog \<Rightarrow> sagaMessage list \<Rightarrow> inMemorySagaLog option" where
  "LogAll log [] = Some log"
| "LogAll log (m # ms) =
     (case LogMessage log m of
        Some (None, log') \<Rightarrow> LogAll log' ms
      | Some (Some e, log') \<Rightarrow> None
      | None \<Rightarrow> None)"

text \<open>Concrete messages and logs used by the evaluated examples below.\<close>

definition endSaga_j1 :: sagaMessage where
  "endSaga_j1 = \<lparr>sagaId = ''j1'', msgType = EndSagaMsg, taskId = [], data = []\<rparr>"

definition startTask_j1 :: sagaMessage where
  "startTask_j1 = \<lparr>sagaId = ''j1'', msgType = StartTaskMsg, taskId = ''t1'', data = []\<rparr>"

definition blob_j1 :: "byte list" where
  "blob_j1 = [1, 2, 3]"

definition log_started :: inMemorySagaLog where
  "log_started =
     \<lparr>sagas = [''j1'' \<mapsto> [StartSagaMessageFactory ''j1'' blob_j1]], mutex = Unlocked\<rparr>"

definition log_ended :: inMemorySagaLog where
  "log_ended =
     \<lparr>sagas = [''j1'' \<mapsto> [StartSagaMessageFactory ''j1'' blob_j1, endSaga_j1]],
      mutex = Unlocked\<rparr>"

definition log_after_end :: inMemorySagaLog where
  "log_after_end =
     \<lparr>sagas = [''j1'' \<mapsto> [StartSagaMessageFactory ''j1'' blob_j1, endSaga_j1, startTask_j1]],
      mutex = Unlocked\<rparr>"

definition log_task :: inMemorySagaLog where
  "log_task =
     \<lparr>sagas = [''j1'' \<mapsto> [StartSagaMessageFactory ''j1'' blob_j1, startTask_j1]],
      mutex = Unlocked\<rparr>"

definition log_stuck :: inMemorySagaLog where
  "log_stuck = \<lparr>sagas = Map.empty, mutex = WriteLocked\<rparr>"

section \<open>The CAS server (package cas)\<close>

text \<open>
  gRPC errors are built by \<^verbatim>\<open>status.Error(code, message)\<close>. Protobuf messages are
  reached through pointers that may be nil, and their getters are nil-safe: a getter on
  a nil message returns the zero value of the field.
\<close>

datatype Code = Internal | Unimplemented | InvalidArgument | OutOfRange | NotFound

datatype status_error = status_Error Code string

record Digest =
  Hash :: string
  SizeBytes :: "64 word"

definition GetHash :: "Digest option \<Rightarrow> string" where
  "GetHash d = (case d of None \<Rightarrow> [] | Some x \<Rightarrow> Hash x)"

definition GetSizeBytes :: "Digest option \<Rightarrow> 64 word" where
  "GetSizeBytes d = (case d of None \<Rightarrow> 0 | Some x \<Rightarrow> SizeBytes x)"

record FindMissingBlobsRequest =
  InstanceName :: string
  BlobDigests :: "Digest option list"

definition GetBlobDigests :: "FindMissingBlobsRequest option \<Rightarrow> Digest option list" where
  "GetBlobDigests req = (case req of None \<Rightarrow> [] | Some r \<Rightarrow> BlobDigests r)"

record FindMissingBlobsResponse =
  MissingBlobDigests :: "Digest option list"

text \<open>
  Package \<^verbatim>\<open>bazel\<close> and the store behind \<^verbatim>\<open>store.StoreConfig\<close> are not part of the
  sources. The server uses the constant \<^verbatim>\<open>bazel.EmptySha\<close>, the function
  \<^verbatim>\<open>bazel.DigestStoreName\<close> and the store's \<^verbatim>\<open>Exists\<close>, which answers with a
  boolean or with an error; they are parameters of the model.
\<close>

record bazel =
  EmptySha :: string
  DigestStoreName :: "Digest option \<Rightarrow> string"

record StoreConfig =
  Store_Exists :: "string \<Rightarrow> string + bool"

record casServer =
  storeConfig :: "StoreConfig option"

text \<open>\<^verbatim>\<open>IsInitialized\<close>: the server pointer and its store configuration are both set.\<close>

definition cas_IsInitialized :: "casServer option \<Rightarrow> bool" where
  "cas_IsInitialized s =
     (case s of None \<Rightarrow> False
      | Some sv \<Rightarrow> (case storeConfig sv of None \<Rightarrow> False | Some cfg \<Rightarrow> True))"

text \<open>
  The loop of \<^verbatim>\<open>FindMissingBlobs\<close> over the requested digests; \<open>res\<close> is the list
  collected so far. A digest with the empty hash is skipped before the store is asked; an
  error of the store ends the call with that error; a digest the store does not have is
  appended.
\<close>

fun findMissing ::
  "bazel \<Rightarrow> StoreConfig \<Rightarrow> Digest option list \<Rightarrow> Digest option list
   \<Rightarrow> status_error + Digest option list" where
  "findMissing bz cfg [] res = Inr res"
| "findMissing bz cfg (digest # rest) res =
     (if GetHash digest = EmptySha bz then findMissing bz cfg rest res
      else
        (let storeName = DigestStoreName bz digest in
         case Store_Exists cfg storeName of
           Inl err \<Rightarrow>
             Inl (status_Error Internal
                   (''Store failed checking existence of '' @ storeName @ '': '' @ err))
         | Inr exists \<Rightarrow>
             if \<not> exists then findMissing bz cfg rest (res @ [digest])
             else findMissing bz cfg rest res))"

definition FindMissingBlobs ::
  "bazel \<Rightarrow> casServer option \<Rightarrow> FindMissingBlobsRequest option
   \<Rightarrow> status_error + FindMissingBlobsResponse" where
  "FindMissingBlobs bz s req =
     (if \<not> cas_IsInitialized s then Inl (status_Error Internal ''Server not initialized'')
      else
        (case findMissing bz (the (storeConfig (the s))) (GetBlobDigests req) [] of
           Inl e \<Rightarrow> Inl e
         | Inr res \<Rightarrow> Inr \<lparr>MissingBlobDigests = res\<rparr>))"

text \<open>A store holding one blob, and a request for the empty digest, that blob and two others.\<close>

definition bazel_sha256 :: bazel where
  "bazel_sha256 =
     \<lparr>EmptySha = ''e3b0c44298fc1c149afbf4c8996fb92427ae41e4649b934ca495991b7852b855'',
      DigestStoreName = (\<lambda>d. ''bs-'' @ GetHash d @ ''.bundle'')\<rparr>"

definition store_one :: StoreConfig where
  "store_one = \<lparr>Store_Exists = (\<lambda>n. Inr (n = ''bs-aa.bundle''))\<rparr>"

definition digest_empty :: "Digest option" where
  "digest_empty =
     Some \<lparr>Hash = ''e3b0c44298fc1c149afbf4c8996fb92427ae41e4649b934ca495991b7852b855'',
           SizeBytes = 0\<rparr>"

definition digest_aa :: "Digest option" where
  "digest_aa = Some \<lparr>Hash = ''aa'', SizeBytes = 5\<rparr>"

definition digest_bb :: "Digest option" where
  "digest_bb = Some \<lparr>Hash = ''bb'', SizeBytes = 7\<rparr>"

definition request_four :: "FindMissingBlobsRequest option" where
  "request_four =
     Some \<lparr>InstanceName = [], BlobDigests = [digest_bb, digest_empty, digest_aa, None]\<rparr>"

section \<open>The execution server (package execution)\<close>

text \<open>
  The request and response messages of the remote execution API, with the fields the
  server reads or writes.
\<close>

record Duration =
  Seconds :: "64 word"
  Nanos :: "32 word"

record Action =
  CommandDigest :: "Digest option"
  InputRootDigest :: "Digest option"
  Timeout :: "Duration option"

record ExecuteRequest =
  ReqInstanceName :: string
  ReqAction :: "Action option"
  SkipCacheLookup :: bool

definition GetAction :: "ExecuteRequest option \<Rightarrow> Action option" where
  "GetAction req = (case req of None \<Rightarrow> None | Some r \<Rightarrow> ReqAction r)"

definition GetCommandDigest :: "Action option \<Rightarrow> Digest option" where
  "GetCommandDigest a = (case a of None \<Rightarrow> None | Some x \<Rightarrow> CommandDigest x)"

definition GetInputRootDigest :: "Action option \<Rightarrow> Digest option" where
  "GetInputRootDigest a = (case a of None \<Rightarrow> None | Some x \<Rightarrow> InputRootDigest x)"

definition GetTimeout :: "Action option \<Rightarrow> Duration option" where
  "GetTimeout a = (case a of None \<Rightarrow> None | Some x \<Rightarrow> Timeout x)"

datatype Stage = UNKNOWN_STAGE | CACHE_CHECK | QUEUED | EXECUTING | COMPLETED

record ExecuteOperationMetadata =
  Stage :: Stage
  ActionDigest :: "Digest option"

record ActionResult =
  ExitCode :: "32 word"

record ExecuteResponse =
  Result :: "ActionResult option"
  CachedResult :: bool

datatype ProtoMessage =
  MetadataMessage ExecuteOperationMetadata
  | ResponseMessage ExecuteResponse

record Any =
  TypeUrl :: string
  Value :: "byte list"

datatype Operation_Result = Operation_Error string | Operation_Response Any

text \<open>
  \<^verbatim>\<open>longrunning.Operation\<close>; its field \<^verbatim>\<open>Result\<close> is \<open>OpResult\<close> here, since
  \<open>Result\<close> is the field of the response above.
\<close>

record Operation =
  Name :: string
  Metadata :: "Any option"
  Done :: bool
  OpResult :: "Operation_Result option"

text \<open>The job definition of package \<^verbatim>\<open>sched\<close>, with the shape its thrift file gives.\<close>

datatype Priority = P0 | P1 | P2 | P3

record Command =
  Argv :: "string list option"
  EnvVars :: "(string \<times> string) list"
  CmdTimeout :: int
  SnapshotID :: string

record BazelCommand = Command +
  CmdExecuteRequest :: "ExecuteRequest option"

record TaskDefinition =
  TaskCommand :: BazelCommand
  TaskID :: string

record JobDefinition =
  JobType :: string
  Requestor :: string
  Basis :: string
  Tag :: string
  JobPriority :: Priority
  Tasks :: "TaskDefinition list"

text \<open>
  What \<^verbatim>\<open>Execute\<close> calls outside the sources: \<^verbatim>\<open>scootproto.GetSha256\<close> and
  \<^verbatim>\<open>GetMsFromDuration\<close>, \<^verbatim>\<open>bazel.IsValidDigest\<close> and \<^verbatim>\<open>DigestSnapshotID\<close>,
  \<^verbatim>\<open>sched.ValidateJob\<close>, the scheduler's \<^verbatim>\<open>ScheduleJob\<close> (which answers with a job
  id or an error and changes the scheduler), \<^verbatim>\<open>ptypes.MarshalAny\<close>, the clock, and
  from the Go library the decimal printing of \<^verbatim>\<open>%d\<close> and \<^verbatim>\<open>time.ParseDuration\<close>.
  They are parameters of the model; \<open>'s\<close> is the state of the scheduler.
\<close>

record 's execution_env =
  GetSha256 :: "Action option \<Rightarrow> string + (string \<times> 64 word)"
  GetMsFromDuration :: "Duration option \<Rightarrow> 64 word"
  IsValidDigest :: "string \<Rightarrow> 64 word \<Rightarrow> bool"
  DigestSnapshotID :: "Digest option \<Rightarrow> string"
  ValidateJob :: "JobDefinition \<Rightarrow> error"
  ScheduleJob :: "'s \<Rightarrow> JobDefinition \<Rightarrow> (string + string) \<times> 's"
  MarshalAny :: "ProtoMessage \<Rightarrow> string + Any"
  time_Now_Unix :: "64 word"
  Sprintf_d :: "64 word \<Rightarrow> string"
  ParseDuration :: "string \<Rightarrow> string + int"

record 's executionServer =
  scheduler :: "'s option"

definition exec_IsInitialized :: "'s executionServer option \<Rightarrow> bool" where
  "exec_IsInitialized s =
     (case s of None \<Rightarrow> False
      | Some sv \<Rightarrow> (case scheduler sv of None \<Rightarrow> False | Some sch \<Rightarrow> True))"

definition validateExecRequest :: "'s execution_env \<Rightarrow> ExecuteRequest option \<Rightarrow> error" where
  "validateExecRequest env req =
     (if req = None then Some ''Unexpected nil execute request''
      else
        (let cmdDigest = GetCommandDigest (GetAction req);
             inputDigest = GetInputRootDigest (GetAction req)
         in if \<not> IsValidDigest env (GetHash cmdDigest) (GetSizeBytes cmdDigest)
            then Some ''Request action command digest is invalid''
            else if \<not> IsValidDigest env (GetHash inputDigest) (GetSizeBytes inputDigest)
            then Some ''Request action input root digest is invalid''
            else None))"

text \<open>
  \<^verbatim>\<open>execReqToScoot\<close> returns a job definition and an error; its caller drops the job
  when the error is set, so the model returns the one or the other.
\<close>

definition execReqToScoot ::
  "'s execution_env \<Rightarrow> ExecuteRequest option \<Rightarrow> string \<Rightarrow> string + JobDefinition" where
  "execReqToScoot env req actionSha =
     (case validateExecRequest env req of
        Some err \<Rightarrow> Inl err
      | None \<Rightarrow>
          (case ParseDuration env
                  (Sprintf_d env (GetMsFromDuration env (GetTimeout (GetAction req))) @ ''ms'') of
             Inl err \<Rightarrow> Inl err
           | Inr d \<Rightarrow>
               (let task =
                      \<lparr>TaskCommand =
                         \<lparr>Argv = Some [''BZ_PLACEHOLDER''], EnvVars = [], CmdTimeout = d,
                          SnapshotID = DigestSnapshotID env (GetInputRootDigest (GetAction req)),
                          CmdExecuteRequest = req\<rparr>,
                       TaskID = ''Bazel_ExecuteRequest_'' @ actionSha @ ''_''
                                @ Sprintf_d env (time_Now_Unix env)\<rparr>
                in Inr \<lparr>JobType = [], Requestor = [], Basis = [], Tag = [],
                        JobPriority = P0, Tasks = [] @ [task]\<rparr>)))"

definition marshalAny :: "'s execution_env \<Rightarrow> ProtoMessage \<Rightarrow> string + Any" where
  "marshalAny env pb = (case MarshalAny env pb of Inl err \<Rightarrow> Inl err | Inr pbAny \<Rightarrow> Inr pbAny)"

text \<open>
  \<^verbatim>\<open>Execute\<close>, step by step as in the source; the result is the operation or the gRPC
  error, together with the server after the call (its scheduler may have taken the job).
\<close>

definition Execute ::
  "'s execution_env \<Rightarrow> 's executionServer option \<Rightarrow> ExecuteRequest option
   \<Rightarrow> (status_error + Operation) \<times> 's executionServer option" where
  "Execute env s req =
     (if \<not> exec_IsInitialized s then (Inl (status_Error Internal ''Server not initialized''), s)
      else
        (case GetSha256 env (GetAction req) of
           Inl err \<Rightarrow> (Inl (status_Error Internal (''Error serializing action: '' @ err)), s)
         | Inr (actionSha, actionLen) \<Rightarrow>
             (case execReqToScoot env req actionSha of
                Inl err \<Rightarrow>
                  (Inl (status_Error Internal
                         (''Error converting request to internal definition: '' @ err)), s)
              | Inr job \<Rightarrow>
                  (case ValidateJob env job of
                     Some err \<Rightarrow>
                       (Inl (status_Error Internal
                              (''Internal job definition invalid: '' @ err)), s)
                   | None \<Rightarrow>
                       (case ScheduleJob env (the (scheduler (the s))) job of
                          (Inl err, sch') \<Rightarrow>
                            (Inl (status_Error Internal
                                   (''Failed to schedule Scoot job: '' @ err)),
                             Some ((the s)\<lparr>scheduler := Some sch'\<rparr>))
                        | (Inr jobId, sch') \<Rightarrow>
                            (let s' = Some ((the s)\<lparr>scheduler := Some sch'\<rparr>);
                                 op = \<lparr>Name = ''operations/'' @ jobId, Metadata = None,
                                       Done = True, OpResult = None\<rparr>;
                                 eom = \<lparr>Stage = COMPLETED,
                                        ActionDigest =
                                          Some \<lparr>Hash = actionSha, SizeBytes = actionLen\<rparr>\<rparr>
                             in case marshalAny env (MetadataMessage eom) of
                                  Inl err \<Rightarrow> (Inl (status_Error Internal err), s')
                                | Inr eomAsPBAny \<Rightarrow>
                                    (let op1 = op\<lparr>Metadata := Some eomAsPBAny\<rparr>;
                                         res = \<lparr>Result = Some \<lparr>ExitCode = 0\<rparr>,
                                                CachedResult = False\<rparr>
                                     in case marshalAny env (ResponseMessage res) of
                                          Inl err \<Rightarrow> (Inl (status_Error Internal err), s')
                                        | Inr resAsPBAny \<Rightarrow>
                                            (Inr (op1\<lparr>OpResult :=
                                                        Some (Operation_Response resAsPBAny)\<rparr>),
                                             s'))))))))"

text \<open>
  An environment in which every step of \<^verbatim>\<open>Execute\<close> succeeds; its scheduler counts the
  jobs it has taken.
\<close>

definition env_ok :: "nat execution_env" where
  "env_ok =
     \<lparr>GetSha256 = (\<lambda>a. Inr (''abc'', 3)),
      GetMsFromDuration = (\<lambda>d. 0),
      IsValidDigest = (\<lambda>h n. h \<noteq> []),
      DigestSnapshotID = (\<lambda>d. ''bz-'' @ GetHash d),
      ValidateJob = (\<lambda>j. None),
      ScheduleJob = (\<lambda>n j. (Inr ''job-1'', Suc n)),
      MarshalAny =
        (\<lambda>m. case m of
           MetadataMessage e \<Rightarrow> Inr \<lparr>TypeUrl = ''ExecuteOperationMetadata'', Value = []\<rparr>
         | ResponseMessage r \<Rightarrow> Inr \<lparr>TypeUrl = ''ExecuteResponse'', Value = []\<rparr>),
      time_Now_Unix = 0,
      Sprintf_d = (\<lambda>n. ''0''),
      ParseDuration = (\<lambda>s. Inr 0)\<rparr>"

definition request_ok :: "ExecuteRequest option" where
  "request_ok =
     Some \<lparr>ReqInstanceName = [],
           ReqAction = Some \<lparr>CommandDigest = digest_aa, InputRootDigest = digest_bb,
                             Timeout = None\<rparr>,
           SkipCacheLookup = False\<rparr>"

definition operation_ok :: Operation where
  "operation_ok =
     \<lparr>Name = ''operations/job-1'',
      Metadata = Some \<lparr>TypeUrl = ''ExecuteOperationMetadata'', Value = []\<rparr>,
      Done = True,
      OpResult = Some (Operation_Response \<lparr>TypeUrl = ''ExecuteResponse'', Value = []\<rparr>)\<rparr>"

section \<open>The worker handler (package server)\<close>

text \<open>
  The states of a run as package \<^verbatim>\<open>runner\<close> names them, and the status of a run with
  the fields the handler reads or writes.
\<close>

datatype ProcessState =
  UNKNOWN | PENDING | PREPARING | RUNNING | COMPLETE | FAILED | ABORTED | TIMEDOUT
  | BADREQUEST

type_synonym RunID = string

record RunStatus =
  RunID :: RunID
  State :: ProcessState
  Error :: string

text \<open>
  \<^verbatim>\<open>runner.Service\<close> is an interface; its implementations are not part of the sources.
  The model takes the methods the handler calls as functions over the state \<open>'r\<close> of
  the runner, each returning what the Go method returns and the runner afterwards. The
  thrift types and the conversions of package \<^verbatim>\<open>workerapi\<close>, and the message
  \<^verbatim>\<open>runners.QueueFullMsg\<close>, are parameters as well.
\<close>

record ('tc, 'ts, 'r) worker_env =
  ThriftRunCommandToDomain :: "'tc \<Rightarrow> Command"
  DomainRunStatusToThrift :: "RunStatus \<Rightarrow> 'ts"
  QueueFullMsg :: string
  svc_Run :: "'r \<Rightarrow> Command \<Rightarrow> (RunStatus \<times> error) \<times> 'r"
  svc_Status :: "'r \<Rightarrow> RunID \<Rightarrow> (RunStatus \<times> error) \<times> 'r"
  svc_StatusAll :: "'r \<Rightarrow> (RunStatus list \<times> error) \<times> 'r"

text \<open>
  The handler: its runner, the command of the last Run that succeeded (a pointer, nil
  until then) and the id of that run. The stats receiver and the time of the last RPC,
  which \<^verbatim>\<open>updateTimeLastRpc\<close> writes between \<^verbatim>\<open>h.mu.Lock()\<close> and \<^verbatim>\<open>h.mu.Unlock()\<close>,
  enter no result of \<^verbatim>\<open>Run\<close> and are left out.
\<close>

record 'r handler =
  run :: 'r
  currentCmd :: "Command option"
  currentRunID :: RunID

definition NewHandler :: "'r \<Rightarrow> 'r handler" where
  "NewHandler r = \<lparr>run = r, currentCmd = None, currentRunID = []\<rparr>"

text \<open>A call either returns or panics (with the message of the Go runtime).\<close>

datatype 'a outcome = Panic string | Return 'a

text \<open>
  \<^verbatim>\<open>reflect.DeepEqual\<close> on two string slices: a nil slice equals a nil slice only, and
  two slices that are not nil are equal when they have the same elements in order.
\<close>

definition DeepEqual :: "string list option \<Rightarrow> string list option \<Rightarrow> bool" where
  "DeepEqual a b = (a = b)"

text \<open>
  The end of \<^verbatim>\<open>Run\<close>, from \<^verbatim>\<open>if err != nil\<close> on: an error is written into the status,
  which becomes a bad request, and the handler keeps its current command; without an
  error the handler records the command and the id of the status. The thrift status is
  returned with a nil error in both cases.
\<close>

definition Run_finish ::
  "('tc, 'ts, 'r) worker_env \<Rightarrow> 'r handler \<Rightarrow> Command \<Rightarrow> RunStatus \<Rightarrow> error \<Rightarrow> 'r
   \<Rightarrow> (('ts \<times> error) \<times> 'r handler) outcome" where
  "Run_finish env h c status err r =
     (case err of
        Some e \<Rightarrow>
          Return ((DomainRunStatusToThrift env (status\<lparr>Error := e, State := BADREQUEST\<rparr>), None),
                  h\<lparr>run := r\<rparr>)
      | None \<Rightarrow>
          Return ((DomainRunStatusToThrift env status, None),
                  h\<lparr>run := r, currentCmd := Some c, currentRunID := RunID status\<rparr>))"

text \<open>
  \<^verbatim>\<open>Run\<close>. The condition of the duplicate check is evaluated left to right: only when
  the runner returned an error whose message is \<^verbatim>\<open>QueueFullMsg\<close> does Go evaluate
  \<^verbatim>\<open>h.currentCmd.Argv\<close>, and that read panics when \<^verbatim>\<open>h.currentCmd\<close> is nil.
\<close>

definition handler_Run ::
  "('tc, 'ts, 'r) worker_env \<Rightarrow> 'r handler \<Rightarrow> 'tc
   \<Rightarrow> (('ts \<times> error) \<times> 'r handler) outcome" where
  "handler_Run env h cmd =
     (let c = ThriftRunCommandToDomain env cmd in
      case svc_Run env (run h) c of
        ((status, err), r1) \<Rightarrow>
          if err \<noteq> None \<and> the err = QueueFullMsg env then
            (case currentCmd h of
               None \<Rightarrow> Panic ''runtime error: invalid memory address or nil pointer dereference''
             | Some cur \<Rightarrow>
                 if DeepEqual (Argv c) (Argv cur) then
                   (case svc_Status env r1 (currentRunID h) of
                      ((status', err'), r2) \<Rightarrow> Run_finish env h c status' err' r2)
                 else Run_finish env h c status err r1)
          else Run_finish env h c status err r1)"

text \<open>The set of run ids a runner knows: the ids of the statuses \<^verbatim>\<open>StatusAll\<close> lists.\<close>

definition RunIDs :: "('tc, 'ts, 'r) worker_env \<Rightarrow> 'r \<Rightarrow> RunID set" where
  "RunIDs env r = set (map RunID (fst (fst (svc_StatusAll env r))))"

text \<open>
  Modelled from the spec: a runner for the evaluated examples, after section 4.4. It
  caches one status per run and serves reads from that cache; it runs one command at a
  time, so \<^verbatim>\<open>Run\<close> while a cached run is pending, preparing or running returns
  \<^verbatim>\<open>QueueFull\<close> and registers nothing; otherwise it registers a new pending run.
\<close>

definition active :: "RunStatus \<Rightarrow> bool" where
  "active st = (State st = PENDING \<or> State st = PREPARING \<or> State st = RUNNING)"

definition zeroStatus :: RunStatus where
  "zeroStatus = \<lparr>RunID = [], State = UNKNOWN, Error = []\<rparr>"

definition queue_Run :: "RunStatus list \<Rightarrow> Command \<Rightarrow> (RunStatus \<times> error) \<times> RunStatus list" where
  "queue_Run cache c =
     (if list_ex active cache then ((zeroStatus, Some ''No resources available. Please try later.''), cache)
      else
        (let st = \<lparr>RunID = ''run-'' @ replicate (length cache) (CHR ''i''), State = PENDING,
                   Error = []\<rparr>
         in ((st, None), cache @ [st])))"

definition queue_Status :: "RunStatus list \<Rightarrow> RunID \<Rightarrow> (RunStatus \<times> error) \<times> RunStatus list" where
  "queue_Status cache rid =
     (case find (\<lambda>st. RunID st = rid) cache of
        Some st \<Rightarrow> ((st, None), cache)
      | None \<Rightarrow> ((zeroStatus, Some (''cannot find run '' @ rid)), cache))"

definition queue_env :: "(Command, RunStatus, RunStatus list) worker_env" where
  "queue_env =
     \<lparr>ThriftRunCommandToDomain = (\<lambda>c. c),
      DomainRunStatusToThrift = (\<lambda>st. st),
      QueueFullMsg = ''No resources available. Please try later.'',
      svc_Run = queue_Run,
      svc_Status = queue_Status,
      svc_StatusAll = (\<lambda>cache. ((cache, None), cache))\<rparr>"

definition cmd_sleep :: Command where
  "cmd_sleep = \<lparr>Argv = Some [''sleep'', ''60''], EnvVars = [], CmdTimeout = 0, SnapshotID = []\<rparr>"

definition status_run0 :: RunStatus where
  "status_run0 = \<lparr>RunID = ''run-'', State = PENDING, Error = []\<rparr>"

definition handler_busy :: "RunStatus list handler" where
  "handler_busy = \<lparr>run = [status_run0], currentCmd = Some cmd_sleep, currentRunID = ''run-''\<rparr>"

section \<open>The cluster (package cluster)\<close>

text \<open>
  Nodes and node updates. The types \<^verbatim>\<open>Node\<close>, \<^verbatim>\<open>NodeUpdate\<close> and \<^verbatim>\<open>State\<close> of the
  package are not part of the sources; they are taken from the spec's data model: a
  node is identified by its id and carries an address, an update adds a node or removes
  the node of an id.
\<close>

type_synonym NodeId = string

record Node =
  node_Id :: NodeId
  node_Addr :: string

datatype NodeUpdate = Added Node | Removed NodeId

fun update_Id :: "NodeUpdate \<Rightarrow> NodeId" where
  "update_Id (Added n) = node_Id n"
| "update_Id (Removed i) = i"

fun isRemoved :: "NodeUpdate \<Rightarrow> bool" where
  "isRemoved (Removed i) = True"
| "isRemoved (Added n) = False"

fun isAdded :: "NodeUpdate \<Rightarrow> bool" where
  "isAdded (Added n) = True"
| "isAdded (Removed i) = False"

text \<open>
  Modelled from the spec: \<^verbatim>\<open>State\<close> with \<^verbatim>\<open>MakeState\<close>, \<^verbatim>\<open>FilterAndUpdate\<close> and
  \<^verbatim>\<open>SetAndDiff\<close>, which the cluster calls and no source file defines. Section 4.3: the
  view keeps a mapping from node id to node; a batch of updates is applied one by one
  (insert on Added-not-present, remove on Removed-present, the other two are no-ops); a
  snapshot replaces the mapping and the difference is emitted; the emitted delta lists
  the removals, then the additions, each ordered by node id. The mapping is kept as a
  list of pairs with distinct keys.
\<close>

record State =
  Nodes :: "(NodeId \<times> Node) list"

definition hasNode :: "State \<Rightarrow> NodeId \<Rightarrow> bool" where
  "hasNode s i = (i \<in> set (map fst (Nodes s)))"

definition setNode :: "State \<Rightarrow> Node \<Rightarrow> State" where
  "setNode s n =
     s\<lparr>Nodes := filter (\<lambda>kv. fst kv \<noteq> node_Id n) (Nodes s) @ [(node_Id n, n)]\<rparr>"

definition deleteNode :: "State \<Rightarrow> NodeId \<Rightarrow> State" where
  "deleteNode s i = s\<lparr>Nodes := filter (\<lambda>kv. fst kv \<noteq> i) (Nodes s)\<rparr>"

definition MakeState :: "Node list \<Rightarrow> State" where
  "MakeState nodes = fold (\<lambda>n s. setNode s n) nodes \<lparr>Nodes = []\<rparr>"

definition order_delta :: "NodeUpdate list \<Rightarrow> NodeUpdate list" where
  "order_delta us =
     sort_key update_Id (filter isRemoved us) @ sort_key update_Id (filter isAdded us)"

fun apply_updates :: "State \<Rightarrow> NodeUpdate list \<Rightarrow> NodeUpdate list \<times> State" where
  "apply_updates s [] = ([], s)"
| "apply_updates s (Added n # us) =
     (if hasNode s (node_Id n) then apply_updates s us
      else (case apply_updates (setNode s n) us of (eff, s') \<Rightarrow> (Added n # eff, s')))"
| "apply_updates s (Removed i # us) =
     (if hasNode s i
      then (case apply_updates (deleteNode s i) us of (eff, s') \<Rightarrow> (Removed i # eff, s'))
      else apply_updates s us)"

definition FilterAndUpdate :: "State \<Rightarrow> NodeUpdate list \<Rightarrow> NodeUpdate list \<times> State" where
  "FilterAndUpdate s updates =
     (case apply_updates s updates of (eff, s') \<Rightarrow> (order_delta eff, s'))"

definition SetAndDiff :: "State \<Rightarrow> Node list \<Rightarrow> NodeUpdate list \<times> State" where
  "SetAndDiff s nodes =
     (let new = MakeState nodes;
          removed = map (\<lambda>kv. Removed (fst kv))
                      (filter (\<lambda>kv. \<not> hasNode new (fst kv)) (Nodes s));
          added = map (\<lambda>kv. Added (snd kv))
                    (filter (\<lambda>kv. \<not> hasNode s (fst kv)) (Nodes new))
      in (order_delta (removed @ added), new))"

text \<open>
  Channels and slices. A channel made by \<^verbatim>\<open>make\<close> is known by its identity, a number
  from 1 on; 0 is the nil channel. What happens on the subscribers' channels is recorded
  in a trace of sends and closes. A slice is a window on an array of the heap: the
  address of the array, a length and a capacity. Arrays are shared: writing through one
  slice is seen through every slice on the same array.
\<close>

type_synonym chan = nat

datatype event = Send chan "NodeUpdate list" | Closed chan

record slice =
  sarr :: nat
  slen :: nat
  scap :: nat

definition nil_slice :: slice where
  "nil_slice = \<lparr>sarr = 0, slen = 0, scap = 0\<rparr>"

definition elems :: "chan list list \<Rightarrow> slice \<Rightarrow> chan list" where
  "elems h s = take (slen s) (h ! sarr s)"

text \<open>
  \<^verbatim>\<open>append(s, xs...)\<close>: when the capacity suffices the elements are written into the
  array of \<open>s\<close>, after its length; otherwise a larger array is allocated and filled with
  the elements of \<open>s\<close> and \<open>xs\<close> (the capacity doubles, or is what is needed if that is
  more; the runtime may round it up further, which no read in this program observes).
\<close>

definition go_append :: "chan list list \<Rightarrow> slice \<Rightarrow> chan list \<Rightarrow> chan list list \<times> slice" where
  "go_append h s xs =
     (let n = slen s + length xs in
      if n \<le> scap s then
        (h[sarr s := take (slen s) (h ! sarr s) @ xs @ drop n (h ! sarr s)], s\<lparr>slen := n\<rparr>)
      else
        (let newcap = max n (2 * scap s) in
         (h @ [take (slen s) (h ! sarr s) @ xs @ replicate (newcap - n) 0],
          \<lparr>sarr = length h, slen = n, scap = newcap\<rparr>)))"

fun index_of :: "'a \<Rightarrow> 'a list \<Rightarrow> nat option" where
  "index_of x [] = None"
| "index_of x (y # ys) = (if y = x then Some 0 else map_option Suc (index_of x ys))"

text \<open>
  The cluster: its state, the request channel and the input channel (open, closed, or
  the field set to nil), the slice of subscriber channels with the heap of arrays it
  lives in, the next channel identity, and the trace.
\<close>

datatype chan_state = ChOpen | ChClosed | ChNil

record Cluster =
  cState :: State
  reqCh :: chan_state
  ch :: chan_state
  subs :: slice
  heap :: "chan list list"
  next_chan :: chan
  trace :: "event list"

definition NewCluster :: "Node list \<Rightarrow> Cluster" where
  "NewCluster state =
     \<lparr>cState = MakeState state, reqCh = ChOpen, ch = ChOpen, subs = nil_slice,
      heap = [[]], next_chan = 1, trace = []\<rparr>"

definition subscribers :: "Cluster \<Rightarrow> chan list" where
  "subscribers c = elems (heap c) (subs c)"

definition current :: "Cluster \<Rightarrow> Node list" where
  "current c = sort_key node_Id (map snd (Nodes (cState c)))"

definition cluster_done :: "Cluster \<Rightarrow> bool" where
  "cluster_done c = (ch c = ChNil \<and> reqCh c = ChNil)"

definition chan_closed :: "Cluster \<Rightarrow> chan \<Rightarrow> bool" where
  "chan_closed c x = (Closed x \<in> set (trace c))"

definition go_close :: "Cluster \<Rightarrow> chan \<Rightarrow> Cluster outcome" where
  "go_close c x =
     (if x = 0 then Panic ''close of nil channel''
      else if chan_closed c x then Panic ''close of closed channel''
      else Return (c\<lparr>trace := trace c @ [Closed x]\<rparr>))"

datatype req = MembersReq | SubscribeReq | UnsubscribeReq chan

datatype reply = NodesReply "Node list" | SubscriberReply "Node list" chan | NoReply

text \<open>
  \<^verbatim>\<open>handleReq\<close>. A request is, in the source, the channel the answer goes to; its type
  selects the case. Members answers with the current nodes. Subscribe makes a channel,
  appends it to \<^verbatim>\<open>c.subs\<close> and answers with the subscriber. A subscriber's own channel
  asks for the end of that subscription: the first position holding it is cut out by
  \<^verbatim>\<open>append(c.subs[0:i], c.subs[i+1:]...)\<close>, which moves the later elements down inside
  the same array, and the channel is closed.
\<close>

fun handleReq :: "Cluster \<Rightarrow> req \<Rightarrow> (reply \<times> Cluster) outcome" where
  "handleReq c MembersReq = Return (NodesReply (current c), c)"
| "handleReq c SubscribeReq =
     (let chn = next_chan c;
          s = SubscriberReply (current c) chn
      in case go_append (heap c) (subs c) [chn] of
           (h, sl) \<Rightarrow> Return (s, c\<lparr>subs := sl, heap := h, next_chan := Suc chn\<rparr>))"
| "handleReq c (UnsubscribeReq r) =
     (case index_of r (elems (heap c) (subs c)) of
        None \<Rightarrow> Return (NoReply, c)
      | Some i \<Rightarrow>
          (case go_append (heap c) ((subs c)\<lparr>slen := i\<rparr>)
                  (drop (Suc i) (elems (heap c) (subs c))) of
             (h, sl) \<Rightarrow>
               (case go_close (c\<lparr>subs := sl, heap := h\<rparr>) r of
                  Panic m \<Rightarrow> Panic m
                | Return c' \<Rightarrow> Return (NoReply, c'))))"

text \<open>
  What arrives on the input channel is a batch of updates, a list of nodes, or a value
  of another type; the loop computes the outgoing delta from it.
\<close>

datatype payload = UpdatesValue "NodeUpdate list" | NodesValue "Node list" | OtherValue

definition ingest :: "State \<Rightarrow> payload \<Rightarrow> NodeUpdate list \<times> State" where
  "ingest s nodesOrUpdates =
     (case nodesOrUpdates of
        UpdatesValue updates \<Rightarrow> FilterAndUpdate s updates
      | NodesValue nodes \<Rightarrow> SetAndDiff s nodes
      | OtherValue \<Rightarrow> ([], s))"

fun send_all :: "Cluster \<Rightarrow> chan list \<Rightarrow> NodeUpdate list \<Rightarrow> Cluster outcome" where
  "send_all c [] outgoing = Return c"
| "send_all c (sub # rest) outgoing =
     (if chan_closed c sub then Panic ''send on closed channel''
      else send_all (c\<lparr>trace := trace c @ [Send sub outgoing]\<rparr>) rest outgoing)"

fun close_all :: "Cluster \<Rightarrow> chan list \<Rightarrow> Cluster outcome" where
  "close_all c [] = Return c"
| "close_all c (sub # rest) =
     (case go_close c sub of Panic m \<Rightarrow> Panic m | Return c' \<Rightarrow> close_all c' rest)"

text \<open>
  One turn of the \<^verbatim>\<open>select\<close> in \<^verbatim>\<open>loop\<close>, for each thing it can receive: a value or the
  close of the input channel, a request or the close of the request channel. A channel
  whose field is nil is never selected, and the request channel is closed by
  \<^verbatim>\<open>Close\<close> only; an event that cannot happen in the state leaves it as it is.
\<close>

datatype select_event = ChRecv payload | ChClosedEv | ReqRecv req | ReqClosedEv

fun loop_step :: "Cluster \<Rightarrow> select_event \<Rightarrow> Cluster outcome" where
  "loop_step c (ChRecv nodesOrUpdates) =
     (if ch c \<noteq> ChOpen then Return c
      else
        (case ingest (cState c) nodesOrUpdates of
           (outgoing, st) \<Rightarrow> send_all (c\<lparr>cState := st\<rparr>) (elems (heap c) (subs c)) outgoing))"
| "loop_step c ChClosedEv = Return (if ch c = ChOpen then c\<lparr>ch := ChNil\<rparr> else c)"
| "loop_step c (ReqRecv r) =
     (if reqCh c \<noteq> ChOpen then Return c
      else (case handleReq c r of Panic m \<Rightarrow> Panic m | Return (rep, c') \<Rightarrow> Return c'))"
| "loop_step c ReqClosedEv = Return (if reqCh c = ChClosed then c\<lparr>reqCh := ChNil\<rparr> else c)"

text \<open>
  \<^verbatim>\<open>loop\<close> over the events the select receives: it runs until both channel fields are
  nil, then closes every channel of \<^verbatim>\<open>c.subs\<close> and exits (\<open>True\<close>); when the events
  end before that, it is left waiting in the select (\<open>False\<close>).
\<close>

fun loop :: "Cluster \<Rightarrow> select_event list \<Rightarrow> (bool \<times> Cluster) outcome" where
  "loop c [] =
     (if cluster_done c
      then (case close_all c (elems (heap c) (subs c)) of
              Panic m \<Rightarrow> Panic m | Return c' \<Rightarrow> Return (True, c'))
      else Return (False, c))"
| "loop c (ev # rest) =
     (if cluster_done c
      then (case close_all c (elems (heap c) (subs c)) of
              Panic m \<Rightarrow> Panic m | Return c' \<Rightarrow> Return (True, c'))
      else (case loop_step c ev of Panic m \<Rightarrow> Panic m | Return c' \<Rightarrow> loop c' rest))"

text \<open>
  \<^verbatim>\<open>Close\<close>. The range expression \<^verbatim>\<open>c.subs\<close> is evaluated once: the loop runs over the
  positions below the length it had then, and reads position \<open>i\<close> of that array when
  iteration \<open>i\<close> starts, after the earlier iterations' \<^verbatim>\<open>handleReq\<close> calls have written
  to the array. Then \<^verbatim>\<open>c.subs\<close> is set to nil and the request channel is closed.
\<close>

fun Close_range :: "Cluster \<Rightarrow> nat \<Rightarrow> nat list \<Rightarrow> Cluster outcome" where
  "Close_range c a [] = Return c"
| "Close_range c a (i # rest) =
     (case handleReq c (UnsubscribeReq (heap c ! a ! i)) of
        Panic m \<Rightarrow> Panic m
      | Return (rep, c') \<Rightarrow> Close_range c' a rest)"

definition Close :: "Cluster \<Rightarrow> Cluster outcome" where
  "Close c =
     (case Close_range c (sarr (subs c)) [0..<slen (subs c)] of
        Panic m \<Rightarrow> Panic m
      | Return c' \<Rightarrow>
          (case reqCh c' of
             ChOpen \<Rightarrow> Return (c'\<lparr>subs := nil_slice, reqCh := ChClosed\<rparr>)
           | ChClosed \<Rightarrow> Panic ''close of closed channel''
           | ChNil \<Rightarrow> Panic ''close of nil channel''))"

text \<open>
  A delta is ordered when it is its removals followed by its additions, and the ids of
  the removals and the ids of the additions are each in ascending (lexicographic) order.
\<close>

definition delta_ordered :: "NodeUpdate list \<Rightarrow> bool" where
  "delta_ordered d =
     (d = filter isRemoved d @ filter isAdded d
      \<and> sorted (map update_Id (filter isRemoved d))
      \<and> sorted (map update_Id (filter isAdded d)))"

text \<open>The deltas that a sequence of ingested values produces, in the order of the values.\<close>

fun deltas :: "State \<Rightarrow> payload list \<Rightarrow> NodeUpdate list list" where
  "deltas s [] = []"
| "deltas s (p # ps) = (case ingest s p of (d, s') \<Rightarrow> d # deltas s' ps)"

fun final_state :: "State \<Rightarrow> payload list \<Rightarrow> State" where
  "final_state s [] = s"
| "final_state s (p # ps) = final_state (snd (ingest s p)) ps"

text \<open>What a channel has been sent, in order, according to a trace.\<close>

fun received :: "chan \<Rightarrow> event list \<Rightarrow> NodeUpdate list list" where
  "received s [] = []"
| "received s (Send x d # tr) = (if x = s then d # received s tr else received s tr)"
| "received s (Closed x # tr) = received s tr"

text \<open>The slice \<^verbatim>\<open>c.subs\<close> lies inside an array of the heap.\<close>

definition subs_in_heap :: "Cluster \<Rightarrow> bool" where
  "subs_in_heap c =
     (sarr (subs c) < length (heap c) \<and> slen (subs c) \<le> scap (subs c)
      \<and> length (heap c ! sarr (subs c)) = scap (subs c))"

text \<open>
  A cluster with three subscribers, as three Subscribe requests leave it, and the
  values used in the evaluated examples.
\<close>

definition cluster3 :: Cluster where
  "cluster3 =
     \<lparr>cState = \<lparr>Nodes = []\<rparr>, reqCh = ChOpen, ch = ChOpen,
      subs = \<lparr>sarr = 3, slen = 3, scap = 4\<rparr>,
      heap = [[], [1], [1, 2], [1, 2, 3, 0]], next_chan = 4, trace = []\<rparr>"

definition cluster3_closed :: Cluster where
  "cluster3_closed =
     \<lparr>cState = \<lparr>Nodes = []\<rparr>, reqCh = ChClosed, ch = ChOpen, subs = nil_slice,
      heap = [[], [1], [1, 2], [2, 3, 3, 0]], next_chan = 4,
      trace = [Closed 1, Closed 3]\<rparr>"

definition cluster3_end :: Cluster where
  "cluster3_end = cluster3_closed\<lparr>reqCh := ChNil, ch := ChNil\<rparr>"

definition node_n1 :: Node where
  "node_n1 = \<lparr>node_Id = ''n1'', node_Addr = ''10.0.0.1''\<rparr>"

definition node_n2 :: Node where
  "node_n2 = \<lparr>node_Id = ''n2'', node_Addr = ''10.0.0.2''\<rparr>"

definition node_n3 :: Node where
  "node_n3 = \<lparr>node_Id = ''n3'', node_Addr = ''10.0.0.3''\<rparr>"

definition batch_n :: "NodeUpdate list" where
  "batch_n = [Added node_n2, Added node_n1, Removed ''n3'']"

definition snapshot_n :: "Node list" where
  "snapshot_n = [node_n3, node_n1]"

definition cluster3_fed :: Cluster where
  "cluster3_fed =
     cluster3\<lparr>cState := \<lparr>Nodes = [(''n3'', node_n3), (''n1'', node_n1)]\<rparr>,
              trace := [Send 1 [Added node_n1, Added node_n2],
                        Send 2 [Added node_n1, Added node_n2],
                        Send 3 [Added node_n1, Added node_n2],
                        Send 1 [Removed ''n2'', Added node_n3],
                        Send 2 [Removed ''n2'', Added node_n3],
                        Send 3 [Removed ''n2'', Added node_n3]]\<rparr>"

text \<open>
  The invariant of the cluster under the loop: \<^verbatim>\<open>c.subs\<close> lies inside an array of the
  heap, its channels are distinct, made by \<^verbatim>\<open>make\<close> (not nil, below the next identity)
  and not closed, and every closed channel has been made.
\<close>

definition closed_chans :: "event list \<Rightarrow> chan list" where
  "closed_chans tr = concat (map (\<lambda>e. case e of Closed x \<Rightarrow> [x] | Send x d \<Rightarrow> []) tr)"

definition cluster_inv :: "Cluster \<Rightarrow> bool" where
  "cluster_inv c =
     (subs_in_heap c \<and> distinct (subscribers c) \<and> 0 < next_chan c
      \<and> list_all (\<lambda>s. 0 < s \<and> s < next_chan c \<and> \<not> chan_closed c s) (subscribers c)
      \<and> list_all (\<lambda>x. x < next_chan c) (closed_chans (trace c)))"

section \<open>Properties of the saga log\<close>

lemma LogMessage_started:
  "mutex log = Unlocked \<Longrightarrow> sagas log (sagaId msg) = Some msgs \<Longrightarrow>
   LogMessage log msg =
     Some (None, log\<lparr>sagas := (sagas log)(sagaId msg \<mapsto> msgs @ [msg])\<rparr>)"
  by (simp add: LogMessage_def)

lemma StartSaga_unlocked:
  "mutex log = Unlocked \<Longrightarrow>
   StartSaga log sid job =
     Some (None, log\<lparr>sagas := (sagas log)(sid \<mapsto> [StartSagaMessageFactory sid job])\<rparr>)"
  by (simp add: StartSaga_def)

lemma GetMessages_unlocked:
  "mutex log = Unlocked \<Longrightarrow>
   GetMessages log sid =
     Some ((case sagas log sid of Some msgs \<Rightarrow> msgs | None \<Rightarrow> [], None), log)"
  by (simp add: GetMessages_def split: option.splits)

lemma reach_log_started: "StartSaga InMemorySagaFactory ''j1'' blob_j1 = Some (None, log_started)"
  by (simp add: StartSaga_def InMemorySagaFactory_def log_started_def)

lemma reach_log_ended: "LogMessage log_started endSaga_j1 = Some (None, log_ended)"
  by (simp add: LogMessage_def log_started_def log_ended_def endSaga_j1_def)

lemma reach_log_task: "LogMessage log_started startTask_j1 = Some (None, log_task)"
  by (simp add: LogMessage_def log_started_def log_task_def startTask_j1_def)

text \<open>
  C1 (as stated, refuted). The claim says that a LogMessage call for a saga whose stored
  sequence holds an EndSaga message returns an error and leaves the sequence unchanged.
  On the log reached by StartSaga and an EndSaga message, logging a StartTask message
  returns the nil error and the stored sequence has grown by that message.
\<close>

theorem LogMessage_after_EndSaga_counterexample:
  "LogMessage log_ended startTask_j1 = Some (None, log_after_end)
   \<and> EndSagaMsg \<in> msgType ` set (the (sagas log_ended ''j1''))
   \<and> sagas log_after_end ''j1'' \<noteq> sagas log_ended ''j1''"
  by (simp add: LogMessage_def log_ended_def log_after_end_def startTask_j1_def
      endSaga_j1_def StartSagaMessageFactory_def)

text \<open>
  C1 (amended). The in-memory log checks one thing only, that the saga is stored. On a
  free log, LogMessage for a saga that is not stored returns an error and leaves every
  stored sequence as it is; for a stored saga, whatever messages it holds (an EndSaga
  included), LogMessage returns the nil error, the stored sequence is the old one with
  the message appended at the end, every other saga is untouched and the mutex is free
  again. No message is checked against the messages before it.
\<close>

theorem LogMessage_appends_unchecked:
  assumes "mutex log = Unlocked"
  shows "\<exists>r log'. LogMessage log msg = Some (r, log')
           \<and> (case sagas log (sagaId msg) of
                 None \<Rightarrow> r \<noteq> None \<and> sagas log' = sagas log
               | Some msgs \<Rightarrow>
                   r = None \<and> sagas log' = (sagas log)(sagaId msg \<mapsto> msgs @ [msg])
                   \<and> mutex log' = Unlocked)"
proof (cases "sagas log (sagaId msg)")
  case None
  with assms show ?thesis by (simp add: LogMessage_def)
next
  case (Some msgs)
  with assms show ?thesis by (simp add: LogMessage_def)
qed

theorem LogMessage_appends_unchecked_witness:
  "mutex log_ended = Unlocked
   \<and> sagas log_ended ''j1'' = Some [StartSagaMessageFactory ''j1'' blob_j1, endSaga_j1]
   \<and> (\<exists>log'. LogMessage log_ended startTask_j1 = Some (None, log')
         \<and> sagas log' ''j1''
             = Some [StartSagaMessageFactory ''j1'' blob_j1, endSaga_j1, startTask_j1]
         \<and> mutex log' = Unlocked)"
proof -
  have m: "mutex log_ended = Unlocked"
    by (simp add: log_ended_def)
  have id: "sagaId startTask_j1 = ''j1''"
    by (simp add: startTask_j1_def)
  have s: "sagas log_ended ''j1'' = Some [StartSagaMessageFactory ''j1'' blob_j1, endSaga_j1]"
    by (simp add: log_ended_def)
  from LogMessage_appends_unchecked [OF m, of startTask_j1] id s
  obtain log' where "LogMessage log_ended startTask_j1 = Some (None, log')"
    and "sagas log' = (sagas log_ended)(''j1'' \<mapsto>
           [StartSagaMessageFactory ''j1'' blob_j1, endSaga_j1] @ [startTask_j1])"
    and "mutex log' = Unlocked"
    by auto
  with m s show ?thesis by simp
qed

lemma LogAll_appends:
  "mutex log = Unlocked \<Longrightarrow> sagas log sid = Some old \<Longrightarrow> \<forall>m\<in>set ms. sagaId m = sid \<Longrightarrow>
   \<exists>log'. LogAll log ms = Some log' \<and> sagas log' sid = Some (old @ ms)
     \<and> mutex log' = Unlocked"
proof (induction ms arbitrary: log old)
  case Nil
  then show ?case by simp
next
  case (Cons m ms)
  let ?l = "log\<lparr>sagas := (sagas log)(sid \<mapsto> old @ [m])\<rparr>"
  from Cons.prems have sid: "sagaId m = sid" by simp
  with Cons.prems have step: "LogMessage log m = Some (None, ?l)"
    using LogMessage_started [of log m old] by simp
  have "mutex ?l = Unlocked" "sagas ?l sid = Some (old @ [m])" "\<forall>m\<in>set ms. sagaId m = sid"
    using Cons.prems by simp_all
  from Cons.IH [OF this] obtain log' where
    "LogAll ?l ms = Some log'" "sagas log' sid = Some ((old @ [m]) @ ms)" "mutex log' = Unlocked"
    by blast
  with step show ?case by simp
qed

text \<open>
  C2 (as stated, refuted). The claim says that a second StartSaga with the same job id
  and the same blob leaves the stored sequence unchanged, messages appended between the
  two calls included. After StartSaga and one logged StartTask message, the second
  StartSaga returns ok and the stored sequence is back to the single StartSaga message:
  the StartTask message is gone.
\<close>

theorem StartSaga_again_counterexample:
  "StartSaga InMemorySagaFactory ''j1'' blob_j1 = Some (None, log_started)
   \<and> LogMessage log_started startTask_j1 = Some (None, log_task)
   \<and> StartSaga log_task ''j1'' blob_j1 = Some (None, log_started)
   \<and> sagas log_task ''j1'' = Some [StartSagaMessageFactory ''j1'' blob_j1, startTask_j1]
   \<and> sagas log_started ''j1'' = Some [StartSagaMessageFactory ''j1'' blob_j1]
   \<and> sagas log_started ''j1'' \<noteq> sagas log_task ''j1''"
  by (simp add: StartSaga_def LogMessage_def InMemorySagaFactory_def log_started_def
      log_task_def startTask_j1_def)

text \<open>
  C2 (amended). On a free log StartSaga always returns ok and stores, under the job id,
  the sequence holding the StartSaga message of that id and blob alone; other sagas are
  untouched. So a repeated StartSaga with the same id and blob returns ok, and it leaves
  the log unchanged exactly when the stored sequence was still that single StartSaga
  message, that is when nothing was appended between the two calls.
\<close>

theorem StartSaga_resets_sequence:
  assumes "mutex log = Unlocked"
  shows "\<exists>log'. StartSaga log sid job = Some (None, log')
           \<and> sagas log' sid = Some [StartSagaMessageFactory sid job]
           \<and> (\<forall>s. s \<noteq> sid \<longrightarrow> sagas log' s = sagas log s)
           \<and> mutex log' = Unlocked
           \<and> (log' = log \<longleftrightarrow> sagas log sid = Some [StartSagaMessageFactory sid job])"
proof -
  let ?v = "[StartSagaMessageFactory sid job]"
  let ?l = "log\<lparr>sagas := (sagas log)(sid \<mapsto> ?v)\<rparr>"
  have run: "StartSaga log sid job = Some (None, ?l)"
    using assms by (rule StartSaga_unlocked)
  have same: "?l = log \<longleftrightarrow> sagas log sid = Some ?v"
  proof
    assume "?l = log"
    then have "sagas ?l sid = sagas log sid" by simp
    then show "sagas log sid = Some ?v" by simp
  next
    assume "sagas log sid = Some ?v"
    then have "(sagas log)(sid \<mapsto> ?v) = sagas log" by (rule map_upd_triv)
    then show "?l = log" by simp
  qed
  have "sagas ?l sid = Some ?v" "\<forall>s. s \<noteq> sid \<longrightarrow> sagas ?l s = sagas log s"
    "mutex ?l = Unlocked"
    using assms by simp_all
  with run same show ?thesis by blast
qed

theorem StartSaga_resets_sequence_witness:
  "mutex log_started = Unlocked
   \<and> StartSaga log_started ''j1'' blob_j1 = Some (None, log_started)
   \<and> sagas log_started ''j1'' = Some [StartSagaMessageFactory ''j1'' blob_j1]"
proof -
  have m: "mutex log_started = Unlocked"
    by (simp add: log_started_def)
  have s: "sagas log_started ''j1'' = Some [StartSagaMessageFactory ''j1'' blob_j1]"
    by (simp add: log_started_def)
  from StartSaga_resets_sequence [OF m, of "''j1''" blob_j1] s
  have "StartSaga log_started ''j1'' blob_j1 = Some (None, log_started)"
    by auto
  with m s show ?thesis by simp
qed

text \<open>
  C5 (as stated, refuted). The claim says that GetMessages on a job id that was never
  started returns the error NotFound. On the fresh log it returns the nil slice together
  with the nil error.
\<close>

theorem GetMessages_not_started_counterexample:
  "sagas InMemorySagaFactory ''j1'' = None
   \<and> GetMessages InMemorySagaFactory ''j1'' = Some (([], None), InMemorySagaFactory)"
  by (simp add: GetMessages_def InMemorySagaFactory_def)

text \<open>
  C5 (amended). On a free log GetMessages never returns an error and does not change the
  log: for a job id that was never started it returns the empty (nil) sequence and the
  nil error, for a started saga the full stored sequence. The stored sequence is in
  append order: after StartSaga and the messages \<open>ms\<close> of that saga logged one after
  the other, GetMessages returns the StartSaga message followed by \<open>ms\<close>.
\<close>

theorem GetMessages_returns_stored:
  assumes "mutex log = Unlocked"
  shows "GetMessages log sid =
           Some ((case sagas log sid of Some msgs \<Rightarrow> msgs | None \<Rightarrow> [], None), log)
         \<and> (\<forall>job ms. (\<forall>m\<in>set ms. sagaId m = sid) \<longrightarrow>
               (\<exists>l1 l2. StartSaga log sid job = Some (None, l1) \<and> LogAll l1 ms = Some l2
                  \<and> GetMessages l2 sid
                      = Some ((StartSagaMessageFactory sid job # ms, None), l2)))"
proof (intro conjI allI impI)
  show "GetMessages log sid =
          Some ((case sagas log sid of Some msgs \<Rightarrow> msgs | None \<Rightarrow> [], None), log)"
    using assms by (rule GetMessages_unlocked)
next
  fix job :: "byte list" and ms :: "sagaMessage list"
  assume ms: "\<forall>m\<in>set ms. sagaId m = sid"
  let ?l1 = "log\<lparr>sagas := (sagas log)(sid \<mapsto> [StartSagaMessageFactory sid job])\<rparr>"
  have start: "StartSaga log sid job = Some (None, ?l1)"
    using assms by (rule StartSaga_unlocked)
  have "mutex ?l1 = Unlocked" "sagas ?l1 sid = Some [StartSagaMessageFactory sid job]"
    using assms by simp_all
  from LogAll_appends [OF this ms] obtain l2 where
    l2: "LogAll ?l1 ms = Some l2" "sagas l2 sid = Some ([StartSagaMessageFactory sid job] @ ms)"
      "mutex l2 = Unlocked"
    by blast
  have "GetMessages l2 sid = Some ((StartSagaMessageFactory sid job # ms, None), l2)"
    using GetMessages_unlocked [OF l2(3), of sid] l2(2) by simp
  with start l2(1)
  show "\<exists>l1 l2. StartSaga log sid job = Some (None, l1) \<and> LogAll l1 ms = Some l2
          \<and> GetMessages l2 sid = Some ((StartSagaMessageFactory sid job # ms, None), l2)"
    by blast
qed

theorem GetMessages_returns_stored_witness:
  "mutex log_task = Unlocked
   \<and> GetMessages log_task ''j1''
       = Some (([StartSagaMessageFactory ''j1'' blob_j1, startTask_j1], None), log_task)
   \<and> GetMessages log_task ''j2'' = Some (([], None), log_task)"
proof -
  have m: "mutex log_task = Unlocked"
    by (simp add: log_task_def)
  have "sagas log_task ''j1'' = Some [StartSagaMessageFactory ''j1'' blob_j1, startTask_j1]"
    and "sagas log_task ''j2'' = None"
    by (simp_all add: log_task_def)
  with m GetMessages_returns_stored [OF m, of "''j1''"]
    GetMessages_returns_stored [OF m, of "''j2''"]
  show ?thesis by simp
qed

text \<open>
  C7 (the code breaks the claim). The claim says that a LogMessage call that fails
  because the saga is not started leaves the lock released, so that later calls
  complete. On the fresh log, LogMessage for saga j1 returns the error with the write
  lock still held, and the next StartSaga, LogMessage and GetMessages on that log all
  stop at their lock call and never return.
\<close>

theorem LogMessage_not_started_keeps_lock:
  "LogMessage InMemorySagaFactory startTask_j1
     = Some (Some ''Saga: j1 is not Started yet.'', log_stuck)
   \<and> mutex log_stuck = WriteLocked
   \<and> StartSaga log_stuck ''j1'' blob_j1 = None
   \<and> LogMessage log_stuck startTask_j1 = None
   \<and> GetMessages log_stuck ''j1'' = None"
  by (simp add: LogMessage_def StartSaga_def GetMessages_def InMemorySagaFactory_def
      log_stuck_def startTask_j1_def)

section \<open>Properties of the CAS server\<close>

lemma findMissing_filter:
  "findMissing bz cfg ds res = Inr out \<Longrightarrow>
   out = res @ filter (\<lambda>d. GetHash d \<noteq> EmptySha bz
                          \<and> Store_Exists cfg (DigestStoreName bz d) = Inr False) ds"
proof (induction ds arbitrary: res)
  case Nil
  then show ?case by simp
next
  case (Cons d ds)
  show ?case
  proof (cases "GetHash d = EmptySha bz")
    case True
    with Cons.prems have "findMissing bz cfg ds res = Inr out" by simp
    from Cons.IH [OF this] True show ?thesis by simp
  next
    case False
    show ?thesis
    proof (cases "Store_Exists cfg (DigestStoreName bz d)")
      case (Inl err)
      with False Cons.prems show ?thesis by simp
    next
      case (Inr exists)
      show ?thesis
      proof (cases exists)
        case True
        with False Inr Cons.prems have "findMissing bz cfg ds res = Inr out" by simp
        from Cons.IH [OF this] False Inr True show ?thesis by simp
      next
        case absent: False
        with False Inr Cons.prems have "findMissing bz cfg ds (res @ [d]) = Inr out" by simp
        from Cons.IH [OF this] False Inr absent show ?thesis by simp
      qed
    qed
  qed
qed

lemma findMissing_succeeds:
  "(\<forall>d\<in>set ds. GetHash d \<noteq> EmptySha bz \<longrightarrow>
       (\<exists>b. Store_Exists cfg (DigestStoreName bz d) = Inr b)) \<Longrightarrow>
   \<exists>out. findMissing bz cfg ds res = Inr out"
  by (induction ds arbitrary: res) (auto simp: Let_def)

text \<open>
  C10. Whenever FindMissingBlobs returns a response, its MissingBlobDigests are the
  requested digests, in request order, that do not have the empty hash and that the
  store reported absent. So a digest with the empty hash is never in the list, whatever
  the store holds, and every other digest is in the list exactly when the store answered
  that it does not exist.
\<close>

theorem FindMissingBlobs_missing:
  assumes "FindMissingBlobs bz s req = Inr resp"
  shows "\<exists>sv cfg. s = Some sv \<and> storeConfig sv = Some cfg
           \<and> MissingBlobDigests resp =
               filter (\<lambda>d. GetHash d \<noteq> EmptySha bz
                            \<and> Store_Exists cfg (DigestStoreName bz d) = Inr False)
                 (GetBlobDigests req)"
proof -
  from assms have init: "cas_IsInitialized s"
    by (auto simp: FindMissingBlobs_def split: if_splits)
  then obtain sv cfg where s: "s = Some sv" "storeConfig sv = Some cfg"
    by (auto simp: cas_IsInitialized_def split: option.splits)
  with assms init obtain out where
    out: "findMissing bz cfg (GetBlobDigests req) [] = Inr out"
      "resp = \<lparr>MissingBlobDigests = out\<rparr>"
    by (auto simp: FindMissingBlobs_def split: sum.splits)
  from findMissing_filter [OF out(1)] out(2) s show ?thesis by simp
qed

theorem FindMissingBlobs_missing_witness:
  "FindMissingBlobs bazel_sha256 (Some \<lparr>storeConfig = Some store_one\<rparr>) request_four
     = Inr \<lparr>MissingBlobDigests = [digest_bb, None]\<rparr>
   \<and> GetHash digest_empty = EmptySha bazel_sha256
   \<and> Store_Exists store_one (DigestStoreName bazel_sha256 digest_empty) = Inr False"
proof -
  have run: "FindMissingBlobs bazel_sha256 (Some \<lparr>storeConfig = Some store_one\<rparr>) request_four
               = Inr \<lparr>MissingBlobDigests = [digest_bb, None]\<rparr>"
    by (simp add: FindMissingBlobs_def cas_IsInitialized_def GetBlobDigests_def
        request_four_def bazel_sha256_def store_one_def digest_empty_def digest_aa_def
        digest_bb_def GetHash_def)
  from FindMissingBlobs_missing [OF run]
  have "MissingBlobDigests \<lparr>MissingBlobDigests = [digest_bb, None]\<rparr> =
          filter (\<lambda>d. GetHash d \<noteq> EmptySha bazel_sha256
                       \<and> Store_Exists store_one (DigestStoreName bazel_sha256 d) = Inr False)
            (GetBlobDigests request_four)"
    by simp
  moreover have "GetHash digest_empty = EmptySha bazel_sha256"
    by (simp add: GetHash_def digest_empty_def bazel_sha256_def)
  moreover have "Store_Exists store_one (DigestStoreName bazel_sha256 digest_empty) = Inr False"
    by (simp add: GetHash_def digest_empty_def bazel_sha256_def store_one_def)
  ultimately show ?thesis using run by simp
qed

section \<open>Properties of the execution server\<close>

lemma Execute_success_cases:
  assumes "Execute env s req = (Inr op, s')"
  obtains sv sch actionSha actionLen job jobId sch' eomAny resAny where
    "s = Some sv" "scheduler sv = Some sch"
    "GetSha256 env (GetAction req) = Inr (actionSha, actionLen)"
    "execReqToScoot env req actionSha = Inr job"
    "ValidateJob env job = None"
    "ScheduleJob env sch job = (Inr jobId, sch')"
    "marshalAny env (MetadataMessage \<lparr>Stage = COMPLETED,
        ActionDigest = Some \<lparr>Hash = actionSha, SizeBytes = actionLen\<rparr>\<rparr>) = Inr eomAny"
    "marshalAny env (ResponseMessage \<lparr>Result = Some \<lparr>ExitCode = 0\<rparr>,
        CachedResult = False\<rparr>) = Inr resAny"
    "op = \<lparr>Name = ''operations/'' @ jobId, Metadata = Some eomAny, Done = True,
           OpResult = Some (Operation_Response resAny)\<rparr>"
    "s' = Some (sv\<lparr>scheduler := Some sch'\<rparr>)"
proof -
  from assms have init: "exec_IsInitialized s"
    by (auto simp: Execute_def split: if_splits)
  then obtain sv sch where s: "s = Some sv" "scheduler sv = Some sch"
    by (auto simp: exec_IsInitialized_def split: option.splits)
  from assms init s show thesis
    by (auto simp: Execute_def Let_def split: sum.splits option.splits prod.splits
        intro!: that)
qed

text \<open>
  C9. Whenever Execute returns an operation (and not an error), the operation has
  Done = true and its result is the response that marshalAny produced for the
  ExecuteResponse whose ActionResult has ExitCode 0 and which is not a cached result.
  The operation is built right after ScheduleJob has returned the job id, from that id
  and the digest of the action only: nothing of what the scheduler later does with the
  job enters it.
\<close>

theorem Execute_success_done_exit_zero:
  assumes "Execute env s req = (Inr op, s')"
  shows "Done op
         \<and> (\<exists>a. marshalAny env (ResponseMessage \<lparr>Result = Some \<lparr>ExitCode = 0\<rparr>,
                                                   CachedResult = False\<rparr>) = Inr a
                \<and> OpResult op = Some (Operation_Response a))
         \<and> (\<exists>sv sch job jobId sch'. s = Some sv \<and> scheduler sv = Some sch
                \<and> ScheduleJob env sch job = (Inr jobId, sch')
                \<and> Name op = ''operations/'' @ jobId
                \<and> s' = Some (sv\<lparr>scheduler := Some sch'\<rparr>))"
  using assms by (elim Execute_success_cases) auto

theorem Execute_success_done_exit_zero_witness:
  "Execute env_ok (Some \<lparr>scheduler = Some 0\<rparr>) request_ok
     = (Inr operation_ok, Some \<lparr>scheduler = Some 1\<rparr>)
   \<and> Done operation_ok
   \<and> OpResult operation_ok
       = Some (Operation_Response \<lparr>TypeUrl = ''ExecuteResponse'', Value = []\<rparr>)"
proof -
  have run: "Execute env_ok (Some \<lparr>scheduler = Some 0\<rparr>) request_ok
               = (Inr operation_ok, Some \<lparr>scheduler = Some 1\<rparr>)"
    by (simp add: Execute_def exec_IsInitialized_def execReqToScoot_def
        validateExecRequest_def marshalAny_def env_ok_def request_ok_def operation_ok_def
        GetAction_def GetCommandDigest_def GetInputRootDigest_def GetTimeout_def
        GetHash_def GetSizeBytes_def digest_aa_def digest_bb_def)
  from Execute_success_done_exit_zero [OF run]
  have "Done operation_ok"
    and "\<exists>a. marshalAny env_ok (ResponseMessage \<lparr>Result = Some \<lparr>ExitCode = 0\<rparr>,
                                                     CachedResult = False\<rparr>) = Inr a
           \<and> OpResult operation_ok = Some (Operation_Response a)"
    by blast+
  then show ?thesis
    using run by (auto simp: marshalAny_def env_ok_def)
qed

section \<open>Properties of the worker handler\<close>

lemma reach_handler_busy:
  "handler_Run queue_env (NewHandler []) cmd_sleep = Return ((status_run0, None), handler_busy)"
  by (simp add: handler_Run_def Run_finish_def NewHandler_def queue_env_def queue_Run_def
      status_run0_def handler_busy_def Let_def)

text \<open>
  C3. Let the runner answer the handler's Run call with the QueueFull error, let the
  handler have a current command whose argv equals the argv of the new command, and let
  the runner's Status for the current run id succeed with status \<open>st\<close>. Then Run
  returns \<open>st\<close> (converted to thrift) with a nil error, without marking it as a bad
  request. The handler calls the runner for nothing else: the runner afterwards is the
  one left by the rejected Run and the Status read, so when neither of these two calls
  registers a run id, the runner's set of run ids is the one before the call.
\<close>

theorem Run_duplicate_returns_live_status:
  assumes run: "svc_Run env (run h) (ThriftRunCommandToDomain env cmd)
                  = ((st0, Some (QueueFullMsg env)), r1)"
    and cur: "currentCmd h = Some cur"
    and argv: "Argv (ThriftRunCommandToDomain env cmd) = Argv cur"
    and status: "svc_Status env r1 (currentRunID h) = ((st, None), r2)"
    and run_frame: "RunIDs env r1 = RunIDs env (run h)"
    and status_frame: "RunIDs env r2 = RunIDs env r1"
  shows "\<exists>h'. handler_Run env h cmd = Return ((DomainRunStatusToThrift env st, None), h')
           \<and> run h' = r2
           \<and> currentCmd h' = Some (ThriftRunCommandToDomain env cmd)
           \<and> currentRunID h' = RunID st
           \<and> RunIDs env (run h') = RunIDs env (run h)"
proof -
  let ?c = "ThriftRunCommandToDomain env cmd"
  let ?h' = "h\<lparr>run := r2, currentCmd := Some ?c, currentRunID := RunID st\<rparr>"
  have dup: "DeepEqual (Argv ?c) (Argv cur)"
    using argv by (simp add: DeepEqual_def)
  have "handler_Run env h cmd = Run_finish env h ?c st None r2"
    using run cur dup status by (simp add: handler_Run_def)
  then have "handler_Run env h cmd = Return ((DomainRunStatusToThrift env st, None), ?h')"
    by (simp add: Run_finish_def)
  moreover have "RunIDs env (run ?h') = RunIDs env (run h)"
    using run_frame status_frame by simp
  ultimately show ?thesis by simp
qed

theorem Run_duplicate_returns_live_status_witness:
  "handler_Run queue_env handler_busy cmd_sleep = Return ((status_run0, None), handler_busy)
   \<and> RunIDs queue_env (run handler_busy) = {''run-''}"
proof -
  have run: "svc_Run queue_env (run handler_busy) (ThriftRunCommandToDomain queue_env cmd_sleep)
               = ((zeroStatus, Some (QueueFullMsg queue_env)), [status_run0])"
    by (simp add: queue_env_def queue_Run_def handler_busy_def status_run0_def active_def)
  have cur: "currentCmd handler_busy = Some cmd_sleep"
    by (simp add: handler_busy_def)
  have argv: "Argv (ThriftRunCommandToDomain queue_env cmd_sleep) = Argv cmd_sleep"
    by (simp add: queue_env_def)
  have status: "svc_Status queue_env [status_run0] (currentRunID handler_busy)
                  = ((status_run0, None), [status_run0])"
    by (simp add: queue_env_def queue_Status_def handler_busy_def status_run0_def)
  have ids: "RunIDs queue_env [status_run0] = RunIDs queue_env (run handler_busy)"
    by (simp add: handler_busy_def)
  from Run_duplicate_returns_live_status [OF run cur argv status ids refl]
  obtain h' where h': "handler_Run queue_env handler_busy cmd_sleep
                         = Return ((DomainRunStatusToThrift queue_env status_run0, None), h')"
    "run h' = [status_run0]"
    "currentCmd h' = Some (ThriftRunCommandToDomain queue_env cmd_sleep)"
    "currentRunID h' = RunID status_run0"
    by blast
  have "h' = handler_busy"
    using h'(2-4) by (cases h') (simp add: handler_busy_def queue_env_def status_run0_def)
  moreover have "DomainRunStatusToThrift queue_env status_run0 = status_run0"
    by (simp add: queue_env_def)
  moreover have "RunIDs queue_env (run handler_busy) = {''run-''}"
    by (simp add: RunIDs_def queue_env_def handler_busy_def status_run0_def)
  ultimately show ?thesis using h'(1) by simp
qed

text \<open>
  C8 (the code breaks the claim). The claim says that Run returns a status from every
  handler state, the state with no current command and a runner reporting QueueFull
  included. A handler made by NewHandler over a runner that is busy with a run has no
  current command; the runner rejects the Run call with QueueFull, and the duplicate
  check reads the argv of the nil current command: Run panics and returns nothing.
\<close>

theorem Run_nil_currentCmd_panics:
  "currentCmd (NewHandler [status_run0]) = None
   \<and> svc_Run queue_env (run (NewHandler [status_run0])) cmd_sleep
       = ((zeroStatus, Some (QueueFullMsg queue_env)), [status_run0])
   \<and> handler_Run queue_env (NewHandler [status_run0]) cmd_sleep
       = Panic ''runtime error: invalid memory address or nil pointer dereference''"
  by (simp add: handler_Run_def NewHandler_def queue_env_def queue_Run_def status_run0_def
      active_def)

section \<open>Properties of the cluster\<close>

lemma isAdded_not_isRemoved: "isAdded u = (\<not> isRemoved u)"
  by (cases u) simp_all

lemma order_delta_ordered: "delta_ordered (order_delta us)"
proof -
  let ?R = "sort_key update_Id (filter isRemoved us)"
  let ?A = "sort_key update_Id (filter isAdded us)"
  have RR: "filter isRemoved ?R = ?R" and AA: "filter isAdded ?A = ?A"
    by (simp_all add: filter_sort)
  have RA: "filter isRemoved ?A = []" and AR: "filter isAdded ?R = []"
    by (simp_all add: filter_sort isAdded_not_isRemoved)
  have "sorted (map update_Id ?R)" "sorted (map update_Id ?A)"
    by simp_all
  with RR AA RA AR show ?thesis
    by (simp add: delta_ordered_def order_delta_def)
qed

lemma ingest_ordered: "delta_ordered (fst (ingest s p))"
proof (cases p)
  case (UpdatesValue updates)
  then show ?thesis
    by (simp add: ingest_def FilterAndUpdate_def order_delta_ordered split: prod.splits)
next
  case (NodesValue nodes)
  then show ?thesis
    by (simp add: ingest_def SetAndDiff_def Let_def order_delta_ordered)
next
  case OtherValue
  then show ?thesis
    by (simp add: ingest_def delta_ordered_def)
qed

lemma deltas_ordered: "d \<in> set (deltas s ps) \<Longrightarrow> delta_ordered d"
proof (induction ps arbitrary: s)
  case Nil
  then show ?case by simp
next
  case (Cons p ps)
  obtain d0 s' where i: "ingest s p = (d0, s')" by (cases "ingest s p")
  with Cons.prems have "d = d0 \<or> d \<in> set (deltas s' ps)" by simp
  then show ?case
  proof
    assume "d = d0"
    with i ingest_ordered [of s p] show ?thesis by simp
  next
    assume "d \<in> set (deltas s' ps)"
    then show ?thesis by (rule Cons.IH)
  qed
qed

lemma received_append: "received s (tr @ tr') = received s tr @ received s tr'"
  by (induction s tr rule: received.induct) simp_all

lemma received_sends_other: "s \<notin> set xs \<Longrightarrow> received s (map (\<lambda>x. Send x d) xs) = []"
  by (induction xs) auto

lemma received_sends:
  "distinct xs \<Longrightarrow> s \<in> set xs \<Longrightarrow> received s (map (\<lambda>x. Send x d) xs) = [d]"
  by (induction xs) (auto simp: received_sends_other)

lemma send_all_trace:
  "\<forall>s\<in>set xs. \<not> chan_closed c s \<Longrightarrow>
   send_all c xs out = Return (c\<lparr>trace := trace c @ map (\<lambda>s. Send s out) xs\<rparr>)"
proof (induction xs arbitrary: c)
  case Nil
  then show ?case by simp
next
  case (Cons x xs)
  let ?c = "c\<lparr>trace := trace c @ [Send x out]\<rparr>"
  have "\<forall>s\<in>set xs. \<not> chan_closed ?c s"
    using Cons.prems by (simp add: chan_closed_def)
  from Cons.IH [OF this] Cons.prems show ?case by simp
qed

lemma loop_step_ingest:
  assumes "ch c = ChOpen" and "\<forall>s\<in>set (subscribers c). \<not> chan_closed c s"
  shows "loop_step c (ChRecv p) =
           Return (c\<lparr>cState := snd (ingest (cState c) p),
                     trace := trace c
                       @ map (\<lambda>s. Send s (fst (ingest (cState c) p))) (subscribers c)\<rparr>)"
proof -
  obtain d st where i: "ingest (cState c) p = (d, st)" by (cases "ingest (cState c) p")
  have "\<forall>s\<in>set (subscribers c). \<not> chan_closed (c\<lparr>cState := st\<rparr>) s"
    using assms(2) by (simp add: chan_closed_def)
  from send_all_trace [OF this, of d] assms(1) i show ?thesis
    by (simp add: subscribers_def)
qed

lemma loop_ingests:
  assumes "ch c = ChOpen" and "\<forall>s\<in>set (subscribers c). \<not> chan_closed c s"
  shows "loop c (map ChRecv ps) =
           Return (False,
                   c\<lparr>cState := final_state (cState c) ps,
                     trace := trace c
                       @ concat (map (\<lambda>d. map (\<lambda>s. Send s d) (subscribers c))
                                   (deltas (cState c) ps))\<rparr>)"
  using assms
proof (induction ps arbitrary: c)
  case Nil
  then show ?case by (simp add: cluster_done_def)
next
  case (Cons p ps)
  obtain d st where i: "ingest (cState c) p = (d, st)" by (cases "ingest (cState c) p")
  let ?c = "c\<lparr>cState := st, trace := trace c @ map (\<lambda>s. Send s d) (subscribers c)\<rparr>"
  have step: "loop_step c (ChRecv p) = Return ?c"
    using loop_step_ingest [OF Cons.prems, of p] i by simp
  have subs: "subscribers ?c = subscribers c"
    by (simp add: subscribers_def)
  have "ch ?c = ChOpen" "\<forall>s\<in>set (subscribers ?c). \<not> chan_closed ?c s"
    using Cons.prems by (auto simp: subscribers_def chan_closed_def)
  from Cons.IH [OF this] step Cons.prems(1) i subs show ?case
    by (simp add: cluster_done_def)
qed

lemma received_deltas:
  assumes "distinct xs" and "s \<in> set xs"
  shows "received s (concat (map (\<lambda>d. map (\<lambda>x. Send x d) xs) ds)) = ds"
  using assms by (induction ds) (simp_all add: received_append received_sends)

lemma go_append_one:
  assumes "sarr s < length h" and "slen s \<le> scap s" and "length (h ! sarr s) = scap s"
    and "go_append h s [x] = (h', s')"
  shows "elems h' s' = elems h s @ [x]"
proof (cases "slen s + 1 \<le> scap s")
  case True
  with assms show ?thesis
    by (auto simp: go_append_def elems_def Let_def)
next
  case False
  with assms(2) have full: "slen s = scap s" by simp
  with assms(3,4) show ?thesis
    by (auto simp: go_append_def elems_def Let_def)
qed

lemma Subscribe_registers_last:
  assumes "subs_in_heap c" and "handleReq c SubscribeReq = Return (rep, c')"
  shows "subscribers c' = subscribers c @ [next_chan c]"
proof -
  obtain h sl where a: "go_append (heap c) (subs c) [next_chan c] = (h, sl)"
    by (cases "go_append (heap c) (subs c) [next_chan c]")
  with assms(2) have c': "c' = c\<lparr>subs := sl, heap := h, next_chan := Suc (next_chan c)\<rparr>"
    by (simp add: Let_def)
  from assms(1) have "sarr (subs c) < length (heap c)" "slen (subs c) \<le> scap (subs c)"
    "length (heap c ! sarr (subs c)) = scap (subs c)"
    by (simp_all add: subs_in_heap_def)
  from go_append_one [OF this a] c' show ?thesis
    by (simp add: subscribers_def)
qed

lemma closed_chans_iff: "x \<in> set (closed_chans tr) \<longleftrightarrow> Closed x \<in> set tr"
proof (induction tr)
  case Nil
  then show ?case by (simp add: closed_chans_def)
next
  case (Cons e tr)
  then show ?case by (cases e) (auto simp: closed_chans_def)
qed

lemma index_of_Some: "index_of x xs = Some i \<Longrightarrow> i < length xs \<and> xs ! i = x"
proof (induction xs arbitrary: i)
  case Nil
  then show ?case by simp
next
  case (Cons y ys)
  show ?case
  proof (cases "y = x")
    case True
    with Cons.prems show ?thesis by simp
  next
    case False
    with Cons.prems obtain j where j: "index_of x ys = Some j" "i = Suc j" by auto
    from Cons.IH [OF j(1)] j(2) show ?thesis by simp
  qed
qed

lemma go_append_in_place:
  assumes "sarr s < length h" and "length (h ! sarr s) = scap s"
    and "slen s + length xs \<le> scap s"
  shows "go_append h s xs
           = (h[sarr s := take (slen s) (h ! sarr s) @ xs @ drop (slen s + length xs) (h ! sarr s)],
              s\<lparr>slen := slen s + length xs\<rparr>)"
    and "elems (fst (go_append h s xs)) (snd (go_append h s xs)) = take (slen s) (h ! sarr s) @ xs"
    and "length (fst (go_append h s xs) ! sarr s) = scap s"
  using assms by (simp_all add: go_append_def elems_def Let_def)

lemma go_append_keeps_heap_shape:
  assumes "sarr s < length h" and "slen s \<le> scap s" and "length (h ! sarr s) = scap s"
    and "go_append h s xs = (h', s')"
  shows "sarr s' < length h' \<and> slen s' \<le> scap s' \<and> length (h' ! sarr s') = scap s'"
proof (cases "slen s + length xs \<le> scap s")
  case True
  with assms show ?thesis
    by (auto simp: go_append_def Let_def)
next
  case False
  with assms show ?thesis
    by (auto simp: go_append_def Let_def nth_append)
qed

lemma Subscribe_inv:
  assumes "cluster_inv c" and "handleReq c SubscribeReq = Return (rep, c')"
  shows "cluster_inv c'"
proof -
  obtain h sl where a: "go_append (heap c) (subs c) [next_chan c] = (h, sl)"
    by (cases "go_append (heap c) (subs c) [next_chan c]")
  with assms(2) have c': "c' = c\<lparr>subs := sl, heap := h, next_chan := Suc (next_chan c)\<rparr>"
    by (simp add: Let_def)
  from assms(1) have shape: "subs_in_heap c" by (simp add: cluster_inv_def)
  then have sh: "sarr (subs c) < length (heap c)" "slen (subs c) \<le> scap (subs c)"
    "length (heap c ! sarr (subs c)) = scap (subs c)"
    by (simp_all add: subs_in_heap_def)
  from go_append_keeps_heap_shape [OF sh a] c' have 1: "subs_in_heap c'"
    by (simp add: subs_in_heap_def)
  have subs': "subscribers c' = subscribers c @ [next_chan c]"
    using shape assms(2) by (rule Subscribe_registers_last)
  have old: "\<forall>s\<in>set (subscribers c). 0 < s \<and> s < next_chan c \<and> \<not> chan_closed c s"
    and cl: "\<forall>x\<in>set (closed_chans (trace c)). x < next_chan c"
    and dist: "distinct (subscribers c)"
    using assms(1) by (simp_all add: cluster_inv_def list_all_iff)
  from assms(1) have pos: "0 < next_chan c" by (simp add: cluster_inv_def)
  from cl have fresh: "\<not> chan_closed c (next_chan c)"
    by (auto simp: chan_closed_def closed_chans_iff)
  have 2: "distinct (subscribers c')"
    using dist old subs' by auto
  have 3: "\<forall>s\<in>set (subscribers c'). 0 < s \<and> s < next_chan c' \<and> \<not> chan_closed c' s"
    using old pos fresh subs' c' by (auto simp: chan_closed_def)
  have 4: "\<forall>x\<in>set (closed_chans (trace c')). x < next_chan c'"
    using cl c' by auto
  from 1 2 3 4 c' show ?thesis
    by (simp add: cluster_inv_def list_all_iff)
qed

lemma Unsubscribe_inv:
  assumes "cluster_inv c" and "handleReq c (UnsubscribeReq r) = Return (rep, c')"
  shows "cluster_inv c'"
proof (cases "index_of r (subscribers c)")
  case None
  with assms show ?thesis by (simp add: subscribers_def)
next
  case (Some i)
  let ?xs = "subscribers c"
  let ?s = "(subs c)\<lparr>slen := i\<rparr>"
  from index_of_Some [OF Some] have i: "i < length ?xs" "?xs ! i = r" by simp_all
  from assms(1) have sh: "sarr (subs c) < length (heap c)" "slen (subs c) \<le> scap (subs c)"
    "length (heap c ! sarr (subs c)) = scap (subs c)"
    by (simp_all add: cluster_inv_def subs_in_heap_def)
  then have len: "length ?xs = slen (subs c)"
    by (simp add: subscribers_def elems_def)
  have old: "\<forall>s\<in>set ?xs. 0 < s \<and> s < next_chan c \<and> \<not> chan_closed c s"
    and cl: "\<forall>x\<in>set (closed_chans (trace c)). x < next_chan c"
    and dist: "distinct ?xs" and pos: "0 < next_chan c"
    using assms(1) by (simp_all add: cluster_inv_def list_all_iff)
  from i have rin: "r \<in> set ?xs" by (auto simp: in_set_conv_nth)
  with old have r: "0 < r" "r < next_chan c" "\<not> chan_closed c r" by auto
  have fits: "slen ?s + length (drop (Suc i) ?xs) \<le> scap ?s"
    using i(1) len sh(2) by simp
  have a1: "sarr ?s < length (heap c)" and a2: "length (heap c ! sarr ?s) = scap ?s"
    using sh by simp_all
  obtain h sl where ap: "go_append (heap c) ?s (drop (Suc i) ?xs) = (h, sl)"
    by (cases "go_append (heap c) ?s (drop (Suc i) ?xs)")
  from go_append_in_place(1) [OF a1 a2 fits] ap
  have sl: "sl = (subs c)\<lparr>slen := i + length (drop (Suc i) ?xs)\<rparr>"
    and hlen: "length h = length (heap c)"
    by auto
  from go_append_in_place(2) [OF a1 a2 fits] ap
  have el: "elems h sl = take i (heap c ! sarr (subs c)) @ drop (Suc i) ?xs"
    by simp
  have "take i (heap c ! sarr (subs c)) = take i ?xs"
    using i(1) len by (simp add: subscribers_def elems_def min_def)
  with el have el': "elems h sl = take i ?xs @ drop (Suc i) ?xs" by simp
  from go_append_in_place(3) [OF a1 a2 fits] ap
  have arr: "length (h ! sarr (subs c)) = scap (subs c)" by simp
  let ?c1 = "c\<lparr>subs := sl, heap := h\<rparr>"
  have closes: "go_close ?c1 r = Return (?c1\<lparr>trace := trace c @ [Closed r]\<rparr>)"
    using r by (simp add: go_close_def chan_closed_def)
  from assms(2) Some ap closes
  have c': "c' = ?c1\<lparr>trace := trace c @ [Closed r]\<rparr>"
    by (simp add: subscribers_def)
  have subs': "subscribers c' = take i ?xs @ drop (Suc i) ?xs"
    using c' el' by (simp add: subscribers_def)
  have set_sub: "set (subscribers c') \<subseteq> set ?xs"
    using subs' by (auto dest: in_set_takeD in_set_dropD)
  have "?xs = take i ?xs @ r # drop (Suc i) ?xs"
    using id_take_nth_drop [OF i(1)] i(2) by simp
  with dist have "distinct (take i ?xs @ r # drop (Suc i) ?xs)" by simp
  then have d': "distinct (subscribers c')" and rout: "r \<notin> set (subscribers c')"
    using subs' by auto
  have 1: "subs_in_heap c'"
    using c' sl sh hlen arr i(1) len by (simp add: subs_in_heap_def)
  have 3: "\<forall>s\<in>set (subscribers c'). 0 < s \<and> s < next_chan c' \<and> \<not> chan_closed c' s"
    using old set_sub rout c' by (auto simp: chan_closed_def)
  have 4: "\<forall>x\<in>set (closed_chans (trace c')). x < next_chan c'"
    using cl r(2) c' by (auto simp: closed_chans_iff)
  from 1 d' 3 4 pos c' show ?thesis
    by (simp add: cluster_inv_def list_all_iff)
qed

lemma handleReq_inv:
  assumes "cluster_inv c" and "handleReq c r = Return (rep, c')"
  shows "cluster_inv c'"
proof (cases r)
  case MembersReq
  with assms show ?thesis by simp
next
  case SubscribeReq
  with assms show ?thesis by (blast intro: Subscribe_inv)
next
  case (UnsubscribeReq x)
  with assms show ?thesis by (blast intro: Unsubscribe_inv)
qed

lemma cluster_inv_open_subs:
  "cluster_inv c \<Longrightarrow> \<forall>s\<in>set (subscribers c). \<not> chan_closed c s"
  by (simp add: cluster_inv_def list_all_iff)

lemma loop_step_inv:
  assumes "cluster_inv c" and "loop_step c ev = Return c'"
  shows "cluster_inv c'"
proof (cases ev)
  case (ChRecv p)
  show ?thesis
  proof (cases "ch c = ChOpen")
    case True
    from loop_step_ingest [OF True cluster_inv_open_subs [OF assms(1)], of p] assms ChRecv
    show ?thesis
      by (auto simp: cluster_inv_def subs_in_heap_def subscribers_def chan_closed_def
          closed_chans_def list_all_iff)
  next
    case False
    with assms ChRecv show ?thesis by simp
  qed
next
  case ChClosedEv
  with assms show ?thesis
    by (auto simp: cluster_inv_def subs_in_heap_def subscribers_def chan_closed_def)
next
  case (ReqRecv r)
  with assms show ?thesis
    by (auto split: if_splits outcome.splits intro: handleReq_inv)
next
  case ReqClosedEv
  with assms show ?thesis
    by (auto simp: cluster_inv_def subs_in_heap_def subscribers_def chan_closed_def)
qed

lemma NewCluster_inv: "cluster_inv (NewCluster state)"
  by (simp add: cluster_inv_def NewCluster_def subs_in_heap_def subscribers_def elems_def
      nil_slice_def closed_chans_def)

lemma loop_waiting_inv:
  "cluster_inv c \<Longrightarrow> loop c evs = Return (False, c') \<Longrightarrow> cluster_inv c'"
proof (induction evs arbitrary: c)
  case Nil
  then show ?case by (auto split: if_splits outcome.splits)
next
  case (Cons ev evs)
  from Cons.prems(2) have nd: "\<not> cluster_done c"
    by (auto split: if_splits outcome.splits)
  with Cons.prems(2) obtain c1 where c1: "loop_step c ev = Return c1" "loop c1 evs = Return (False, c')"
    by (auto split: outcome.splits)
  from loop_step_inv [OF Cons.prems(1) c1(1)] have "cluster_inv c1" .
  from Cons.IH [OF this c1(2)] show ?case .
qed

text \<open>
  C6. Let the cluster satisfy the invariant of the loop (which holds from NewCluster on
  and is kept by every step of the loop) and let the input channel be open. Then every
  ingested value (a batch of updates, a list of nodes, or anything else) makes the loop
  compute one delta and send that same delta to every channel of \<^verbatim>\<open>c.subs\<close>, in the
  order of \<^verbatim>\<open>c.subs\<close>, before the next value is looked at; so the trace grows by the
  sends of the first delta to all subscribers, then those of the second, and so on, and
  each subscriber has received exactly the deltas of the ingested values, in ingest
  order. Each delta is ordered: removals, then additions, each by ascending node id. The
  order of \<^verbatim>\<open>c.subs\<close> is the order of registration: a Subscribe request puts the new
  channel at the end.
\<close>

theorem ingest_delivers_ordered_delta:
  assumes "cluster_inv c" and "ch c = ChOpen"
  shows "(\<exists>c'. loop c (map ChRecv ps) = Return (False, c')
           \<and> trace c' = trace c
                @ concat (map (\<lambda>d. map (\<lambda>s. Send s d) (subscribers c)) (deltas (cState c) ps))
           \<and> subscribers c' = subscribers c
           \<and> (\<forall>s\<in>set (subscribers c).
                 received s (trace c') = received s (trace c) @ deltas (cState c) ps))
         \<and> (\<forall>d\<in>set (deltas (cState c) ps). delta_ordered d)
         \<and> (\<forall>rep c1. handleReq c SubscribeReq = Return (rep, c1) \<longrightarrow>
                subscribers c1 = subscribers c @ [next_chan c])"
proof (intro conjI)
  let ?tr = "concat (map (\<lambda>d. map (\<lambda>s. Send s d) (subscribers c)) (deltas (cState c) ps))"
  let ?c = "c\<lparr>cState := final_state (cState c) ps, trace := trace c @ ?tr\<rparr>"
  from assms(1) have shape: "subs_in_heap c" and dist: "distinct (subscribers c)"
    by (simp_all add: cluster_inv_def)
  have run: "loop c (map ChRecv ps) = Return (False, ?c)"
    using assms(2) cluster_inv_open_subs [OF assms(1)] by (rule loop_ingests)
  have "\<forall>s\<in>set (subscribers c). received s (trace ?c) = received s (trace c) @ deltas (cState c) ps"
    using dist by (simp add: received_append received_deltas)
  moreover have "subscribers ?c = subscribers c"
    by (simp add: subscribers_def)
  ultimately show "\<exists>c'. loop c (map ChRecv ps) = Return (False, c')
           \<and> trace c' = trace c @ ?tr
           \<and> subscribers c' = subscribers c
           \<and> (\<forall>s\<in>set (subscribers c).
                 received s (trace c') = received s (trace c) @ deltas (cState c) ps)"
    using run by (intro exI [of _ ?c]) simp
  show "\<forall>d\<in>set (deltas (cState c) ps). delta_ordered d"
    by (simp add: deltas_ordered)
  show "\<forall>rep c1. handleReq c SubscribeReq = Return (rep, c1) \<longrightarrow>
           subscribers c1 = subscribers c @ [next_chan c]"
    using shape by (blast intro: Subscribe_registers_last)
qed

lemma reach_cluster3:
  "loop (NewCluster []) [ReqRecv SubscribeReq, ReqRecv SubscribeReq, ReqRecv SubscribeReq]
     = Return (False, cluster3)"
  by code_simp

theorem ingest_delivers_ordered_delta_witness:
  "loop cluster3 (map ChRecv [UpdatesValue batch_n, NodesValue snapshot_n])
     = Return (False, cluster3_fed)
   \<and> subscribers cluster3 = [1, 2, 3]
   \<and> deltas (cState cluster3) [UpdatesValue batch_n, NodesValue snapshot_n]
       = [[Added node_n1, Added node_n2], [Removed ''n2'', Added node_n3]]
   \<and> received 2 (trace cluster3_fed)
       = [[Added node_n1, Added node_n2], [Removed ''n2'', Added node_n3]]
   \<and> delta_ordered [Removed ''n2'', Added node_n3]"
proof -
  let ?ps = "[UpdatesValue batch_n, NodesValue snapshot_n]"
  have h1: "cluster_inv cluster3" by code_simp
  have h2: "ch cluster3 = ChOpen" by (simp add: cluster3_def)
  have subs: "subscribers cluster3 = [1, 2, 3]"
    by (simp add: cluster3_def subscribers_def elems_def)
  have ds: "deltas (cState cluster3) ?ps
              = [[Added node_n1, Added node_n2], [Removed ''n2'', Added node_n3]]"
    by code_simp
  have run: "loop cluster3 (map ChRecv ?ps) = Return (False, cluster3_fed)"
    by code_simp
  note fact = ingest_delivers_ordered_delta [OF h1 h2, of ?ps]
  from fact obtain c' where
    c': "loop cluster3 (map ChRecv ?ps) = Return (False, c')"
    and rec: "\<forall>s\<in>set (subscribers cluster3).
                received s (trace c') = received s (trace cluster3) @ deltas (cState cluster3) ?ps"
    by blast
  from c' [unfolded run] have fed: "c' = cluster3_fed" by simp
  have "2 \<in> set (subscribers cluster3)" by (simp add: subs)
  with rec have "received 2 (trace c')
                   = received 2 (trace cluster3) @ deltas (cState cluster3) ?ps"
    by blast
  moreover have "received 2 (trace cluster3) = []" by (simp add: cluster3_def)
  ultimately have r2: "received 2 (trace cluster3_fed)
                         = [[Added node_n1, Added node_n2], [Removed ''n2'', Added node_n3]]"
    by (simp only: fed ds append_Nil)
  from fact have "\<forall>d\<in>set (deltas (cState cluster3) ?ps). delta_ordered d"
    by blast
  then have "\<forall>d\<in>set [[Added node_n1, Added node_n2], [Removed ''n2'', Added node_n3]].
               delta_ordered d"
    by (simp only: ds)
  then have ord: "delta_ordered [Removed ''n2'', Added node_n3]" by simp
  from run subs ds r2 ord show ?thesis by (intro conjI)
qed

text \<open>
  C4 (the code breaks the claim). The claim says that after Close every registered
  subscriber channel has been closed, for any number of subscribers. With three
  subscribers, channels 1, 2 and 3 in registration order, Close closes channels 1 and 3
  only: closing channel 1 moves channels 2 and 3 down in the array the range reads, so
  the second iteration reads channel 3 and the third finds channel 3 gone. Close then
  sets \<^verbatim>\<open>c.subs\<close> to nil, so when the loop ends (request channel closed, input channel
  closed) it closes nothing more: channel 2 is never closed.
\<close>

theorem Close_skips_subscriber:
  "loop (NewCluster []) [ReqRecv SubscribeReq, ReqRecv SubscribeReq, ReqRecv SubscribeReq]
     = Return (False, cluster3)
   \<and> subscribers cluster3 = [1, 2, 3]
   \<and> Close cluster3 = Return cluster3_closed
   \<and> trace cluster3_closed = [Closed 1, Closed 3]
   \<and> loop cluster3_closed [ReqClosedEv, ChClosedEv] = Return (True, cluster3_end)
   \<and> trace cluster3_end = [Closed 1, Closed 3]
   \<and> chan_closed cluster3_end 2 = False"
  by code_simp

end
